theory Spec2Isabelle
  imports Main "HOL-Library.Sublist"
begin

unbundle bit_operations_syntax

section \<open>Data model\<close>

text \<open>
  The program is \<^verbatim>\<open>src/text_merge.py\<close>. Python \<^verbatim>\<open>bytes\<close> are lists of 8-bit
  characters, Python \<^verbatim>\<open>str\<close> values are lists of Unicode code points.
  \<open>ascii\<close> writes a text literal.
\<close>

type_synonym bytes = "char list"
type_synonym str = "nat list"

definition ascii :: "string \<Rightarrow> str" where
  "ascii s = map of_char s"

text \<open>
  Every exception the two functions can raise is a value. The first six are
  \<^verbatim>\<open>ValueError\<close>s raised by the program and by the text functions it calls; the last
  two are what the file system calls of lines 60 and 61 raise:
  \<^item> \<open>UnicodeEncodeError\<close>: \<^verbatim>\<open>str.encode\<close> met a code point the codec cannot encode;
  \<^item> \<open>EmptySeparator\<close>: \<^verbatim>\<open>content.split(b'')\<close>;
  \<^item> \<open>NotEnoughValues\<close>: \<^verbatim>\<open>header, body = part.split(b"\n", 1)\<close> got one element;
  \<^item> \<open>InvalidHeader header\<close>: line 49, \<^verbatim>\<open>raise ValueError(f"Invalid header: {header!r}")\<close>;
  \<^item> \<open>InvalidLiteral s\<close>: \<^verbatim>\<open>int(size_str)\<close> on line 51;
  \<^item> \<open>ChecksumMismatch filename expected actual\<close>: line 56;
  \<^item> \<open>OSError errno\<close>: an \<^verbatim>\<open>OSError\<close> with its error number (17 is
    \<^verbatim>\<open>FileExistsError\<close>, 20 \<^verbatim>\<open>NotADirectoryError\<close>, 21 \<^verbatim>\<open>IsADirectoryError\<close>);
  \<^item> \<open>EmbeddedNull\<close>: \<^verbatim>\<open>ValueError: embedded null byte\<close>, for a path with a NUL character.
\<close>

datatype error =
    UnicodeEncodeError
  | EmptySeparator
  | NotEnoughValues
  | InvalidHeader bytes
  | InvalidLiteral str
  | ChecksumMismatch str str str
  | OSError nat
  | EmbeddedNull

section \<open>The library functions the program calls\<close>

subsection \<open>Codecs: \<^verbatim>\<open>str.encode(encoding)\<close> and \<^verbatim>\<open>bytes.decode()\<close>\<close>

text \<open>
  Three of Python's codecs are modelled, all with the default \<^verbatim>\<open>errors='strict'\<close>.
  A code point that is a surrogate or lies beyond U+10FFFF has no UTF-8 encoding.
\<close>

datatype codec = Utf8 | Latin1 | Ascii

definition cont :: "nat \<Rightarrow> char" where
  "cont n = char_of (128 + n mod 64)"

definition utf8_cp :: "nat \<Rightarrow> bytes option" where
  "utf8_cp c =
     (if c < 0x80 then Some [char_of c]
      else if c < 0x800 then Some [char_of (0xC0 + c div 64), cont c]
      else if 0xD800 \<le> c \<and> c < 0xE000 then None
      else if c < 0x10000 then
        Some [char_of (0xE0 + c div 4096), cont (c div 64), cont c]
      else if c < 0x110000 then
        Some [char_of (0xF0 + c div 262144), cont (c div 4096), cont (c div 64), cont c]
      else None)"

definition encode_cp :: "codec \<Rightarrow> nat \<Rightarrow> bytes option" where
  "encode_cp enc c =
     (case enc of
        Utf8 \<Rightarrow> utf8_cp c
      | Latin1 \<Rightarrow> if c < 256 then Some [char_of c] else None
      | Ascii \<Rightarrow> if c < 128 then Some [char_of c] else None)"

fun encode :: "codec \<Rightarrow> str \<Rightarrow> error + bytes" where
  "encode enc [] = Inr []"
| "encode enc (c # cs) =
     (case encode_cp enc c of
        None \<Rightarrow> Inl UnicodeEncodeError
      | Some b \<Rightarrow> (case encode enc cs of Inl e \<Rightarrow> Inl e | Inr bs \<Rightarrow> Inr (b @ bs)))"

text \<open>
  \<^verbatim>\<open>header.decode()\<close> has no argument: it is the strict UTF-8 decoder, which accepts
  exactly the well-formed sequences (shortest form, no surrogates, at most U+10FFFF).
  \<open>None\<close> is \<^verbatim>\<open>UnicodeDecodeError\<close>.
\<close>

definition is_cont :: "char \<Rightarrow> bool" where
  "is_cont b = (0x80 \<le> (of_char b :: nat) \<and> (of_char b :: nat) < 0xC0)"

definition lo6 :: "char \<Rightarrow> nat" where
  "lo6 b = of_char b mod 64"

text \<open>The code point that a lead byte and its continuation bytes carry.\<close>

definition cp2 :: "char \<Rightarrow> char \<Rightarrow> nat" where
  "cp2 b b1 = (of_char b - 0xC0) * 64 + lo6 b1"

definition cp3 :: "char \<Rightarrow> char \<Rightarrow> char \<Rightarrow> nat" where
  "cp3 b b1 b2 = (of_char b - 0xE0) * 4096 + lo6 b1 * 64 + lo6 b2"

definition cp4 :: "char \<Rightarrow> char \<Rightarrow> char \<Rightarrow> char \<Rightarrow> nat" where
  "cp4 b b1 b2 b3 = (of_char b - 0xF0) * 262144 + lo6 b1 * 4096 + lo6 b2 * 64 + lo6 b3"

fun decode_utf8 :: "bytes \<Rightarrow> str option" where
  "decode_utf8 [] = Some []"
| "decode_utf8 (b # bs) =
     (if (of_char b :: nat) < 0x80 then map_option ((#) (of_char b)) (decode_utf8 bs)
      else if (of_char b :: nat) < 0xC2 then None
      else if (of_char b :: nat) < 0xE0 then
        (case bs of
           b1 # r \<Rightarrow>
             if is_cont b1 then map_option ((#) (cp2 b b1)) (decode_utf8 r) else None
         | _ \<Rightarrow> None)
      else if (of_char b :: nat) < 0xF0 then
        (case bs of
           b1 # b2 # r \<Rightarrow>
             if is_cont b1 \<and> is_cont b2 \<and> 0x800 \<le> cp3 b b1 b2
                \<and> \<not> (0xD800 \<le> cp3 b b1 b2 \<and> cp3 b b1 b2 < 0xE000)
             then map_option ((#) (cp3 b b1 b2)) (decode_utf8 r)
             else None
         | _ \<Rightarrow> None)
      else if (of_char b :: nat) < 0xF5 then
        (case bs of
           b1 # b2 # b3 # r \<Rightarrow>
             if is_cont b1 \<and> is_cont b2 \<and> is_cont b3 \<and> 0x10000 \<le> cp4 b b1 b2 b3
                \<and> cp4 b b1 b2 b3 < 0x110000
             then map_option ((#) (cp4 b b1 b2 b3)) (decode_utf8 r)
             else None
         | _ \<Rightarrow> None)
      else None)"

subsection \<open>Splitting: \<^verbatim>\<open>split\<close>, \<^verbatim>\<open>rsplit\<close>, \<^verbatim>\<open>strip\<close>, slicing\<close>

text \<open>
  \<open>split_once sep s\<close> cuts \<open>s\<close> at the leftmost occurrence of a non-empty \<open>sep\<close>;
  \<open>None\<close> when there is none. \<open>split_all\<close> is \<^verbatim>\<open>s.split(sep)\<close>, \<open>splitn\<close> is
  \<^verbatim>\<open>s.split(sep, maxsplit)\<close> and \<open>rsplit\<close> is \<^verbatim>\<open>s.rsplit(sep, maxsplit)\<close>, which
  searches from the right. Python raises on an empty separator; the callers below
  test for it before they split.
\<close>

fun split_once :: "'a list \<Rightarrow> 'a list \<Rightarrow> ('a list \<times> 'a list) option" where
  "split_once sep [] = None"
| "split_once sep (x # xs) =
     (if prefix sep (x # xs) then Some ([], drop (length sep) (x # xs))
      else map_option (\<lambda>(u, v). (x # u, v)) (split_once sep xs))"

function split_all :: "'a list \<Rightarrow> 'a list \<Rightarrow> 'a list list" where
  "split_all sep s =
     (if sep = [] then [s]
      else (case split_once sep s of
              None \<Rightarrow> [s]
            | Some (u, v) \<Rightarrow> u # split_all sep v))"
  by pat_completeness auto
termination
proof (relation "measure (\<lambda>(sep, s). length s)")
  show "wf (measure (\<lambda>(sep, s). length s))" by simp
next
  fix sep s :: "'a list" and x2 u v
  assume sep: "sep \<noteq> []" and cut: "split_once sep s = Some x2" "(u, v) = x2"
  have "split_once sep t = Some (w, v) \<Longrightarrow> length v < length t" for t w
  proof (induction t arbitrary: w)
    case Nil
    then show ?case by simp
  next
    case (Cons x xs)
    show ?case
    proof (cases "prefix sep (x # xs)")
      case True
      with Cons.prems have "v = drop (length sep) (x # xs)" by simp
      with sep show ?thesis by (cases sep) simp_all
    next
      case False
      with Cons.prems obtain w' where "split_once sep xs = Some (w', v)" by auto
      with Cons.IH have "length v < length xs" by blast
      then show ?thesis by simp
    qed
  qed
  with cut show "((sep, v), (sep, s)) \<in> measure (\<lambda>(sep, s). length s)" by auto
qed

declare split_all.simps [simp del]

primrec splitn :: "'a list \<Rightarrow> nat \<Rightarrow> 'a list \<Rightarrow> 'a list list" where
  "splitn sep 0 s = [s]"
| "splitn sep (Suc n) s =
     (case split_once sep s of
        None \<Rightarrow> [s]
      | Some (u, v) \<Rightarrow> u # splitn sep n v)"

definition rsplit :: "'a list \<Rightarrow> nat \<Rightarrow> 'a list \<Rightarrow> 'a list list" where
  "rsplit sep n s = rev (map rev (splitn (rev sep) n (rev s)))"

text \<open>
  \<^verbatim>\<open>str.strip()\<close> removes the characters for which \<^verbatim>\<open>str.isspace\<close> holds
  (bidirectional class WS, B or S, or category Zs) from both ends.
\<close>

definition unicode_spaces :: "nat list" where
  "unicode_spaces =
     [0x09, 0x0A, 0x0B, 0x0C, 0x0D, 0x1C, 0x1D, 0x1E, 0x1F, 0x20, 0x85, 0xA0, 0x1680,
      0x2000, 0x2001, 0x2002, 0x2003, 0x2004, 0x2005, 0x2006, 0x2007, 0x2008, 0x2009,
      0x200A, 0x2028, 0x2029, 0x202F, 0x205F, 0x3000]"

definition isspace :: "nat \<Rightarrow> bool" where
  "isspace c = (c \<in> set unicode_spaces)"

definition strip :: "str \<Rightarrow> str" where
  "strip s = rev (dropWhile isspace (rev (dropWhile isspace s)))"

text \<open>\<^verbatim>\<open>body[:size]\<close>: a negative bound counts from the end.\<close>

definition slice_to :: "int \<Rightarrow> 'a list \<Rightarrow> 'a list" where
  "slice_to n xs =
     (if 0 \<le> n then take (nat n) xs else take (length xs - nat (- n)) xs)"

subsection \<open>Integers as text: \<^verbatim>\<open>str(len(data))\<close> and \<^verbatim>\<open>int(size_str)\<close>\<close>

text \<open>The f-string writes \<^verbatim>\<open>len(data)\<close> in decimal, without leading zeros.\<close>

function show_nat :: "nat \<Rightarrow> str" where
  "show_nat n = (if n < 10 then [48 + n] else show_nat (n div 10) @ [48 + n mod 10])"
  by pat_completeness auto
termination
  by (relation "measure id") auto

declare show_nat.simps [simp del]

text \<open>
  \<^verbatim>\<open>int(s)\<close> in base 10, as CPython reads it: code points from 127 on are first mapped
  to ASCII (a Unicode space to a blank, a Unicode decimal digit to its ASCII digit);
  then blanks are skipped (the ASCII ones only: \<^verbatim>\<open>\x1c\<close> to \<^verbatim>\<open>\x1f\<close> are spaces for
  \<^verbatim>\<open>strip\<close> but not here), one sign is read, then digits with single underscores
  between them, then blanks to the end. More than \<open>int_max_str_digits\<close> digits are refused
  (the default of \<^verbatim>\<open>sys.set_int_max_str_digits\<close>). \<open>decimal_zeros\<close> lists the zero
  digit of every run of decimal digits in the Unicode database of Python 3.11
  (version 14.0); the digit \<open>k\<close> of a run is \<open>k\<close> places after its zero.
\<close>

definition decimal_zeros :: "nat list" where
  "decimal_zeros =
     [0x30, 0x660, 0x6F0, 0x7C0, 0x966, 0x9E6, 0xA66, 0xAE6, 0xB66, 0xBE6, 0xC66, 0xCE6,
      0xD66, 0xDE6, 0xE50, 0xED0, 0xF20, 0x1040, 0x1090, 0x17E0, 0x1810, 0x1946, 0x19D0,
      0x1A80, 0x1A90, 0x1B50, 0x1BB0, 0x1C40, 0x1C50, 0xA620, 0xA8D0, 0xA900, 0xA9D0,
      0xA9F0, 0xAA50, 0xABF0, 0xFF10, 0x104A0, 0x10D30, 0x11066, 0x110F0, 0x11136,
      0x111D0, 0x112F0, 0x11450, 0x114D0, 0x11650, 0x116C0, 0x11730, 0x118E0, 0x11950,
      0x11C50, 0x11D50, 0x11DA0, 0x16A60, 0x16AC0, 0x16B50, 0x1D7CE, 0x1D7D8, 0x1D7E2,
      0x1D7EC, 0x1D7F6, 0x1E140, 0x1E2F0, 0x1E950, 0x1FBF0]"

definition digit_value :: "nat \<Rightarrow> nat option" where
  "digit_value c =
     map_option (\<lambda>z. c - z) (find (\<lambda>z. z \<le> c \<and> c < z + 10) decimal_zeros)"

definition int_space :: "nat \<Rightarrow> bool" where
  "int_space c = (c \<in> {0x09, 0x0A, 0x0B, 0x0C, 0x0D, 0x20} \<or> (127 \<le> c \<and> isspace c))"

definition int_max_str_digits :: nat where
  "int_max_str_digits = 4300"

text \<open>
  \<open>scan_digits acc cnt s\<close> reads the digits that follow a first digit: the value so far,
  the number of digits so far, the text left. It stops before the first code point that
  is neither a digit nor an underscore; an underscore not followed by a digit is an error.
\<close>

fun scan_digits :: "nat \<Rightarrow> nat \<Rightarrow> str \<Rightarrow> (nat \<times> nat \<times> str) option" where
  "scan_digits acc cnt [] = Some (acc, cnt, [])"
| "scan_digits acc cnt (c # cs) =
     (case digit_value c of
        Some d \<Rightarrow> scan_digits (10 * acc + d) (Suc cnt) cs
      | None \<Rightarrow>
          if c = 0x5F then
            (case cs of
               [] \<Rightarrow> None
             | c' # cs' \<Rightarrow>
                 (case digit_value c' of
                    None \<Rightarrow> None
                  | Some d \<Rightarrow> scan_digits (10 * acc + d) (Suc cnt) cs'))
          else Some (acc, cnt, c # cs))"

definition read_sign :: "str \<Rightarrow> bool \<times> str" where
  "read_sign s =
     (case s of
        [] \<Rightarrow> (False, [])
      | c # cs \<Rightarrow> if c = 0x2D then (True, cs) else if c = 0x2B then (False, cs) else (False, s))"

definition py_int :: "str \<Rightarrow> int option" where
  "py_int s =
     (case read_sign (dropWhile int_space s) of
        (neg, []) \<Rightarrow> None
      | (neg, c # cs) \<Rightarrow>
          (case digit_value c of
             None \<Rightarrow> None
           | Some d \<Rightarrow>
               (case scan_digits d 1 cs of
                  None \<Rightarrow> None
                | Some (v, cnt, rest) \<Rightarrow>
                    if dropWhile int_space rest \<noteq> [] \<or> int_max_str_digits < cnt then None
                    else Some (if neg then - int v else int v))))"

subsection \<open>\<^verbatim>\<open>hashlib.sha256(data).hexdigest()\<close>\<close>

text \<open>
  SHA-256 as FIPS 180-4 defines it, on 32-bit words kept as natural numbers with the
  reduction modulo \<open>2 ^ 32\<close> written out. The digest is returned the way \<^verbatim>\<open>hexdigest\<close>
  does: 64 lower-case hexadecimal digits, as text.
\<close>

definition add32 :: "nat \<Rightarrow> nat \<Rightarrow> nat" where
  "add32 x y = (x + y) mod 4294967296"

definition rotr :: "nat \<Rightarrow> nat \<Rightarrow> nat" where
  "rotr n x = x div 2 ^ n + (x mod 2 ^ n) * 2 ^ (32 - n)"

definition Ch :: "nat \<Rightarrow> nat \<Rightarrow> nat \<Rightarrow> nat" where
  "Ch x y z = (x AND y) XOR ((x XOR 4294967295) AND z)"

definition Maj :: "nat \<Rightarrow> nat \<Rightarrow> nat \<Rightarrow> nat" where
  "Maj x y z = (x AND y) XOR (x AND z) XOR (y AND z)"

definition Sigma0 :: "nat \<Rightarrow> nat" where
  "Sigma0 x = rotr 2 x XOR rotr 13 x XOR rotr 22 x"

definition Sigma1 :: "nat \<Rightarrow> nat" where
  "Sigma1 x = rotr 6 x XOR rotr 11 x XOR rotr 25 x"

definition sigma0 :: "nat \<Rightarrow> nat" where
  "sigma0 x = rotr 7 x XOR rotr 18 x XOR x div 2 ^ 3"

definition sigma1 :: "nat \<Rightarrow> nat" where
  "sigma1 x = rotr 17 x XOR rotr 19 x XOR x div 2 ^ 10"

text \<open>
  \<open>K256\<close> are the round constants of section 4.2.2 of the standard and \<open>H256\<close> is
  the initial hash value of its section 5.3.3, both in decimal.
\<close>

definition K256 :: "nat list" where
  "K256 =
     [1116352408, 1899447441, 3049323471, 3921009573, 961987163, 1508970993, 2453635748,
      2870763221, 3624381080, 310598401, 607225278, 1426881987, 1925078388, 2162078206,
      2614888103, 3248222580, 3835390401, 4022224774, 264347078, 604807628, 770255983,
      1249150122, 1555081692, 1996064986, 2554220882, 2821834349, 2952996808, 3210313671,
      3336571891, 3584528711, 113926993, 338241895, 666307205, 773529912, 1294757372,
      1396182291, 1695183700, 1986661051, 2177026350, 2456956037, 2730485921, 2820302411,
      3259730800, 3345764771, 3516065817, 3600352804, 4094571909, 275423344, 430227734,
      506948616, 659060556, 883997877, 958139571, 1322822218, 1537002063, 1747873779,
      1955562222, 2024104815, 2227730452, 2361852424, 2428436474, 2756734187, 3204031479,
      3329325298]"

definition H256 :: "nat list" where
  "H256 =
     [1779033703, 3144134277, 1013904242, 2773480762, 1359893119, 2600822924, 528734635,
      1541459225]"

text \<open>Padding: a one bit, zero bits up to 56 modulo 64 bytes, the bit length on 8 bytes.\<close>

definition be64 :: "nat \<Rightarrow> nat list" where
  "be64 n =
     [n div 2 ^ 56 mod 256, n div 2 ^ 48 mod 256, n div 2 ^ 40 mod 256, n div 2 ^ 32 mod 256,
      n div 2 ^ 24 mod 256, n div 2 ^ 16 mod 256, n div 2 ^ 8 mod 256, n mod 256]"

definition pad :: "bytes \<Rightarrow> nat list" where
  "pad m =
     map of_char m @ [128] @ replicate ((119 - length m mod 64) mod 64) 0
       @ be64 (8 * length m)"

fun be_words :: "nat list \<Rightarrow> nat list" where
  "be_words (a # b # c # d # r) = (16777216 * a + 65536 * b + 256 * c + d) # be_words r"
| "be_words _ = []"

text \<open>The message schedule is kept newest word first while it is extended.\<close>

fun schedule :: "nat \<Rightarrow> nat list \<Rightarrow> nat list" where
  "schedule 0 w = w"
| "schedule (Suc n) w =
     schedule n
       (add32 (add32 (add32 (sigma1 (w ! 1)) (w ! 6)) (sigma0 (w ! 14))) (w ! 15) # w)"

definition rnd_out :: "nat \<Rightarrow> nat \<Rightarrow> nat list \<Rightarrow> nat list" where
  "rnd_out t1 t2 s =
     (case s of
        [a, b, c, d, e, f, g, h] \<Rightarrow> [add32 t1 t2, a, b, c, add32 d t1, e, f, g]
      | _ \<Rightarrow> s)"

fun rnd :: "nat list \<Rightarrow> nat \<times> nat \<Rightarrow> nat list" where
  "rnd [a, b, c, d, e, f, g, h] (k, w) =
     rnd_out (add32 (add32 (add32 (add32 h (Sigma1 e)) (Ch e f g)) k) w)
       (add32 (Sigma0 a) (Maj a b c)) [a, b, c, d, e, f, g, h]"
| "rnd s _ = s"

definition compress :: "nat list \<Rightarrow> nat list \<Rightarrow> nat list" where
  "compress h blk =
     map2 add32 h (foldl rnd h (zip K256 (rev (schedule 48 (rev (be_words blk))))))"

function blocks :: "nat list \<Rightarrow> nat list list" where
  "blocks m = (if m = [] then [] else take 64 m # blocks (drop 64 m))"
  by pat_completeness auto
termination
  by (relation "measure length") auto

declare blocks.simps [simp del]

definition hexdigit :: "nat \<Rightarrow> nat" where
  "hexdigit n = (if n < 10 then 48 + n else 87 + n)"

definition hex32 :: "nat \<Rightarrow> str" where
  "hex32 w =
     [hexdigit (w div 16 ^ 7 mod 16), hexdigit (w div 16 ^ 6 mod 16),
      hexdigit (w div 16 ^ 5 mod 16), hexdigit (w div 16 ^ 4 mod 16),
      hexdigit (w div 16 ^ 3 mod 16), hexdigit (w div 16 ^ 2 mod 16),
      hexdigit (w div 16 mod 16), hexdigit (w mod 16)]"

definition sha256 :: "bytes \<Rightarrow> str" where
  "sha256 data = concat (map hex32 (foldl compress H256 (blocks (pad data))))"

section \<open>The program\<close>

subsection \<open>\<^verbatim>\<open>merge\<close>\<close>

text \<open>
  \<open>inputs\<close> is the dictionary in iteration order: the text \<^verbatim>\<open>f"{dst_name}"\<close> of each key
  with the source path it maps to. \<open>read p\<close> is \<open>None\<close> when \<^verbatim>\<open>Path(p).is_file()\<close> is false and
  the file's contents otherwise (the archive itself is assumed not to be among the
  inputs). The result is what has been written to the archive, and the exception if one
  stopped the loop.
\<close>

fun merge_loop ::
  "codec \<Rightarrow> ('p \<Rightarrow> bytes option) \<Rightarrow> str \<Rightarrow> str \<Rightarrow> bytes \<Rightarrow> (str \<times> 'p) list
     \<Rightarrow> bytes \<times> error option" where
  "merge_loop encoding read sentinel delimiter out [] = (out, None)"
| "merge_loop encoding read sentinel delimiter out ((dst_name, input_filename) # rest) =
     (case read input_filename of
        None \<Rightarrow> merge_loop encoding read sentinel delimiter out rest
      | Some data \<Rightarrow>
          (case encode encoding
                  (sentinel @ delimiter
                     @ (dst_name @ delimiter @ show_nat (length data) @ delimiter @ sha256 data)
                     @ [0x0A]) of
             Inl e \<Rightarrow> (out, Some e)
           | Inr header \<Rightarrow>
               merge_loop encoding read sentinel delimiter (out @ header @ data) rest))"

definition merge ::
  "codec \<Rightarrow> ('p \<Rightarrow> bytes option) \<Rightarrow> str \<Rightarrow> str \<Rightarrow> (str \<times> 'p) list \<Rightarrow> bytes \<times> error option"
  where
  "merge encoding read sentinel delimiter inputs =
     merge_loop encoding read sentinel delimiter [] inputs"

subsection \<open>\<^verbatim>\<open>split\<close>\<close>

text \<open>
  Lines 45 to 58 for one part: the header is cut off at the first newline, decoded,
  split from the right, the size is read, the payload is sliced and its checksum compared.
  The result is the stripped file name with the payload.
\<close>

definition parse_part :: "str \<Rightarrow> bytes \<Rightarrow> error + (str \<times> bytes)" where
  "parse_part delimiter part =
     (case split_once [CHR 0x0A] part of
        None \<Rightarrow> Inl NotEnoughValues
      | Some (header, body) \<Rightarrow>
          (case (if delimiter = [] then None
                 else map_option (rsplit delimiter 2) (decode_utf8 header)) of
             Some [filename, size_str, checksum] \<Rightarrow>
               (case py_int size_str of
                  None \<Rightarrow> Inl (InvalidLiteral size_str)
                | Some size_of \<Rightarrow>
                    if sha256 (slice_to size_of body) \<noteq> checksum
                    then Inl (ChecksumMismatch filename checksum (sha256 (slice_to size_of body)))
                    else Inr (strip filename, slice_to size_of body))
           | _ \<Rightarrow> Inl (InvalidHeader header)))"

text \<open>
  The state of the output directory is a map \<open>files\<close>: for each path, the contents of the
  regular file that one reads there, if there is one. \<open>join name\<close> is the path
  \<^verbatim>\<open>output_path / filename\<close>. Lines 60 and 61 call the file system, which can refuse:
  the empty name leads to the output directory itself, a name can pass through a regular
  file, name a directory or hold a NUL character, and the directory can be read-only.
  And two paths can lead to the same file (through \<^verbatim>\<open>..\<close> or a link), so that a write
  at one is read at the other. What the file system does is a parameter \<open>os\<close> of the
  model:
  \<^item> \<open>mkdir_parent os files p\<close> is the exception that
    \<^verbatim>\<open>output_filename.parent.mkdir(exist_ok=True, parents=True)\<close> raises for the output
    path \<open>p\<close> in the state \<open>files\<close>, and \<open>None\<close> when it raises nothing. The call
    changes the contents of no regular file.
  \<^item> \<open>write_bytes os files p data\<close> is the state that
    \<^verbatim>\<open>output_filename.write_bytes(file_content)\<close> leaves, with the exception if it
    raises one (a failed call may have created or truncated a file).

  \<open>d\<close> is the dictionary the function returns. An exception ends the loop, and nothing
  that the loop has written is undone.
\<close>

record 'p os =
  mkdir_parent :: "('p \<rightharpoonup> bytes) \<Rightarrow> 'p \<Rightarrow> error option"
  write_bytes :: "('p \<rightharpoonup> bytes) \<Rightarrow> 'p \<Rightarrow> bytes \<Rightarrow> ('p \<rightharpoonup> bytes) \<times> error option"

fun split_loop ::
  "'p os \<Rightarrow> (str \<Rightarrow> 'p) \<Rightarrow> str \<Rightarrow> ('p \<rightharpoonup> bytes) \<Rightarrow> (str \<rightharpoonup> 'p) \<Rightarrow> bytes list
     \<Rightarrow> ('p \<rightharpoonup> bytes) \<times> (error + (str \<rightharpoonup> 'p))" where
  "split_loop os join delimiter files d [] = (files, Inr d)"
| "split_loop os join delimiter files d (part # parts) =
     (case parse_part delimiter part of
        Inl e \<Rightarrow> (files, Inl e)
      | Inr (filename, file_content) \<Rightarrow>
          (case mkdir_parent os files (join filename) of
             Some e \<Rightarrow> (files, Inl e)
           | None \<Rightarrow>
               (case write_bytes os files (join filename) file_content of
                  (files', Some e) \<Rightarrow> (files', Inl e)
                | (files', None) \<Rightarrow>
                    split_loop os join delimiter files' (d(filename \<mapsto> join filename)) parts)))"

definition split ::
  "codec \<Rightarrow> 'p os \<Rightarrow> (str \<Rightarrow> 'p) \<Rightarrow> str \<Rightarrow> str \<Rightarrow> bytes \<Rightarrow> ('p \<rightharpoonup> bytes)
     \<Rightarrow> ('p \<rightharpoonup> bytes) \<times> (error + (str \<rightharpoonup> 'p))" where
  "split encoding os join sentinel delimiter content files =
     (case encode encoding (sentinel @ delimiter) of
        Inl e \<Rightarrow> (files, Inl e)
      | Inr pat \<Rightarrow>
          if pat = [] then (files, Inl EmptySeparator)
          else split_loop os join delimiter files Map.empty (tl (split_all pat content)))"

section \<open>Notions used to state the properties\<close>

text \<open>
  The inputs that exist, with their contents, in iteration order; the text of the header
  line of one entry; the effect of writing a list of entries, in order, on the output
  directory and on the returned dictionary.
\<close>

fun existing :: "('p \<Rightarrow> bytes option) \<Rightarrow> (str \<times> 'p) list \<Rightarrow> (str \<times> bytes) list" where
  "existing read [] = []"
| "existing read ((dst_name, input_filename) # rest) =
     (case read input_filename of
        None \<Rightarrow> existing read rest
      | Some data \<Rightarrow> (dst_name, data) # existing read rest)"

definition header_line :: "str \<Rightarrow> str \<Rightarrow> str \<Rightarrow> bytes \<Rightarrow> str" where
  "header_line sentinel delimiter name data =
     sentinel @ delimiter @ name @ delimiter @ show_nat (length data) @ delimiter
       @ sha256 data @ [0x0A]"

definition bytes_of :: "error + bytes \<Rightarrow> bytes" where
  "bytes_of r = (case r of Inl e \<Rightarrow> [] | Inr b \<Rightarrow> b)"

definition write_all :: "(str \<Rightarrow> 'p) \<Rightarrow> ('p \<rightharpoonup> bytes) \<Rightarrow> (str \<times> bytes) list \<Rightarrow> ('p \<rightharpoonup> bytes)" where
  "write_all join files entries = foldl (\<lambda>f (name, data). f(join name \<mapsto> data)) files entries"

definition bind_all :: "(str \<Rightarrow> 'p) \<Rightarrow> (str \<rightharpoonup> 'p) \<Rightarrow> (str \<times> bytes) list \<Rightarrow> (str \<rightharpoonup> 'p)" where
  "bind_all join d entries = foldl (\<lambda>m (name, data). m(name \<mapsto> join name)) d entries"

text \<open>
  An entry is \<open>encodable\<close> when the codec can encode its header line; its record is then
  the encoded line followed by the payload.
\<close>

definition encodable :: "codec \<Rightarrow> str \<Rightarrow> str \<Rightarrow> str \<times> bytes \<Rightarrow> bool" where
  "encodable encoding sentinel delimiter e =
     (case e of
        (name, data) \<Rightarrow>
          (case encode encoding (header_line sentinel delimiter name data) of
             Inl err \<Rightarrow> False
           | Inr line \<Rightarrow> True))"

definition record_of :: "codec \<Rightarrow> str \<Rightarrow> str \<Rightarrow> str \<times> bytes \<Rightarrow> bytes" where
  "record_of encoding sentinel delimiter e =
     (case e of
        (name, data) \<Rightarrow> bytes_of (encode encoding (header_line sentinel delimiter name data)) @ data)"

text \<open>
  \<open>written os join files entries\<close>: starting from the state \<open>files\<close>, the file system
  refuses none of the calls that write the entries one after the other, and each write
  changes what is read at its own path and nowhere else. \<open>refused os join files entries\<close>:
  the file system refuses one of these calls.
\<close>

fun written :: "'p os \<Rightarrow> (str \<Rightarrow> 'p) \<Rightarrow> ('p \<rightharpoonup> bytes) \<Rightarrow> (str \<times> bytes) list \<Rightarrow> bool" where
  "written os join files [] = True"
| "written os join files ((name, data) # entries) =
     (mkdir_parent os files (join name) = None
      \<and> write_bytes os files (join name) data = (files(join name \<mapsto> data), None)
      \<and> written os join (files(join name \<mapsto> data)) entries)"

fun refused :: "'p os \<Rightarrow> (str \<Rightarrow> 'p) \<Rightarrow> ('p \<rightharpoonup> bytes) \<Rightarrow> (str \<times> bytes) list \<Rightarrow> bool" where
  "refused os join files [] = False"
| "refused os join files ((name, data) # entries) =
     (case mkdir_parent os files (join name) of
        Some e \<Rightarrow> True
      | None \<Rightarrow>
          (case write_bytes os files (join name) data of
             (files', Some e) \<Rightarrow> True
           | (files', None) \<Rightarrow> refused os join files' entries))"

text \<open>
  A file system for the examples. Paths are texts, the path of a name being
  \<^verbatim>\<open>out/\<close> followed by the name, and the output directory \<^verbatim>\<open>out\<close> exists and is
  writable. Writing to the directory itself, which is where the empty name leads, is
  refused with \<^verbatim>\<open>IsADirectoryError\<close>, and a path with a NUL character with
  \<^verbatim>\<open>ValueError\<close>; neither call changes a file. Every other write changes the file at
  its path: the names of the examples are such that no file or directory is in the way
  of another.
\<close>

definition out_dir :: "str os" where
  "out_dir =
     \<lparr> mkdir_parent = (\<lambda>files p. None),
       write_bytes =
         (\<lambda>files p data.
            if 0 \<in> set p then (files, Some EmbeddedNull)
            else if p = ascii ''out/'' then (files, Some (OSError 21))
            else (files(p \<mapsto> data), None)) \<rparr>"

text \<open>
  The conditions under which an archive can be read back. \<open>framing_ok\<close> is about the
  sentinel and a one-character delimiter \<open>d\<close>: the delimiter is an ASCII character
  other than a newline and a lower-case hexadecimal digit and does not occur in the
  sentinel, and the sentinel has no newline and has a character that is not a decimal
  digit. \<open>entry_ok\<close> is about one entry: its name can be encoded, has no newline, and
  the encoded name followed by the delimiter does not contain the pattern \<open>pat\<close> (the
  encoded sentinel and delimiter); the payload does not contain the pattern, and its
  length is one that \<^verbatim>\<open>len\<close> can return.
\<close>

definition is_digit :: "nat \<Rightarrow> bool" where
  "is_digit c = (48 \<le> c \<and> c \<le> 57)"

definition is_hex :: "nat \<Rightarrow> bool" where
  "is_hex c = (48 \<le> c \<and> c \<le> 57 \<or> 97 \<le> c \<and> c \<le> 102)"

definition framing_ok :: "str \<Rightarrow> nat \<Rightarrow> bool" where
  "framing_ok sentinel d =
     (d < 128 \<and> \<not> is_hex d \<and> d \<noteq> 0x0A \<and> d \<notin> set sentinel \<and> 0x0A \<notin> set sentinel
      \<and> (\<exists>c \<in> set sentinel. \<not> is_digit c))"

definition entry_ok :: "bytes \<Rightarrow> nat \<Rightarrow> str \<times> bytes \<Rightarrow> bool" where
  "entry_ok pat d e =
     (case e of
        (name, data) \<Rightarrow>
          (case encode Utf8 name of
             Inl err \<Rightarrow> False
           | Inr encoded \<Rightarrow> \<not> sublist pat (encoded @ [char_of d]))
          \<and> 0x0A \<notin> set name \<and> \<not> sublist pat data \<and> length data < 2 ^ 63)"

text \<open>
  The bytes of an entry in an archive written with UTF-8: the encoded header without
  its newline, and the whole record after the pattern.
\<close>

definition header_bytes :: "nat \<Rightarrow> str \<times> bytes \<Rightarrow> bytes" where
  "header_bytes d e =
     (case e of
        (name, data) \<Rightarrow>
          bytes_of (encode Utf8 name) @ [char_of d] @ map char_of (show_nat (length data))
            @ [char_of d] @ map char_of (sha256 data))"

definition chunk :: "nat \<Rightarrow> str \<times> bytes \<Rightarrow> bytes" where
  "chunk d e = header_bytes d e @ [CHR 0x0A] @ snd e"

section \<open>Evaluating the model on concrete inputs\<close>

text \<open>
  Recursion over a numeral is unfolded one step at a time; the two collections of
  equations let the simplifier run the hash and the text functions on closed terms.
\<close>

lemma replicate_num: "replicate (numeral k) x = x # replicate (pred_numeral k) x"
  by (simp add: numeral_eq_Suc)

lemma schedule_num:
  "schedule (numeral k) w =
     schedule (pred_numeral k)
       (add32 (add32 (add32 (sigma1 (w ! 1)) (w ! 6)) (sigma0 (w ! 14))) (w ! 15) # w)"
  by (simp add: numeral_eq_Suc)

lemma splitn_num:
  "splitn sep (numeral k) s =
     (case split_once sep s of None \<Rightarrow> [s] | Some (u, v) \<Rightarrow> u # splitn sep (pred_numeral k) v)"
  by (simp add: numeral_eq_Suc)

lemmas sha256_eval =
  sha256_def pad_def be64_def blocks.simps compress_def H256_def K256_def rnd_out_def
  add32_def rotr_def Ch_def Maj_def Sigma0_def Sigma1_def sigma0_def sigma1_def
  hex32_def hexdigit_def replicate_num schedule_num ascii_def

lemmas text_eval =
  ascii_def encode_cp_def utf8_cp_def cont_def char_of_eq_iff is_cont_def lo6_def cp2_def cp3_def
  cp4_def
  split_all.simps rsplit_def splitn_num py_int_def read_sign_def int_space_def isspace_def
  unicode_spaces_def digit_value_def decimal_zeros_def int_max_str_digits_def strip_def
  show_nat.simps slice_to_def

lemma sha256_hello:
  "sha256 ''hello'' = ascii ''2cf24dba5fb0a30e26e83b2ac5b9e29e1b161e5c1fa7425e73043362938b9824''"
  by (simp add: sha256_eval)

lemma sha256_bin:
  "sha256 [CHR 0x00, CHR 0x01, CHR 0x02]
     = ascii ''ae4b3280e56e2faf83f414a6e3dabe9d5fbe18976544c05fed121accb85b53fc''"
  by (simp add: sha256_eval)

section \<open>Occurrences of a pattern and splitting\<close>

text \<open>
  A pattern that ends in a marker which occurs nowhere else in it can only occur where
  the marker does. This is what keeps the records of an archive apart.
\<close>

lemma suffix_skip:
  assumes "suffix p (a @ x # b)" "x \<notin> set p"
  shows "suffix p b"
  using assms
proof (induction b arbitrary: p rule: rev_induct)
  case Nil
  then show ?case by (cases p rule: rev_cases) auto
next
  case (snoc y ys)
  show ?case
  proof (cases p rule: rev_cases)
    case Nil
    then show ?thesis by simp
  next
    case (snoc p' l)
    with snoc.prems have "suffix (p' @ [l]) ((a @ x # ys) @ [y])" "x \<notin> set p'" by simp_all
    then have "l = y" "suffix p' (a @ x # ys)" "x \<notin> set p'"
      unfolding snoc_suffix_snoc by simp_all
    with snoc.IH [of p'] snoc show ?thesis by simp
  qed
qed

lemma sublist_snoc_right:
  "sublist p b \<Longrightarrow> sublist p (b @ [y])"
  by (metis sublist_append_rightI sublist_order.order.trans)

lemma sublist_skip_absent:
  assumes "sublist p (a @ x # b)" "x \<notin> set p"
  shows "sublist p a \<or> sublist p b"
proof (cases p rule: rev_cases)
  case Nil
  then show ?thesis by simp
next
  case (snoc s l)
  from assms show ?thesis unfolding snoc
  proof (induction b rule: rev_induct)
    case Nil
    then have "sublist (s @ [l]) (a @ [x])" "l \<noteq> x" by auto
    then show ?case by (simp add: snoc_sublist_snoc)
  next
    case (snoc y ys)
    from snoc.prems(1) have "sublist (s @ [l]) ((a @ x # ys) @ [y])" by simp
    then consider "l = y" "suffix s (a @ x # ys)" | "sublist (s @ [l]) (a @ x # ys)"
      unfolding snoc_sublist_snoc by blast
    then show ?case
    proof cases
      case 1
      from snoc.prems(2) have "x \<notin> set s" by simp
      with 1(2) have "suffix s ys" by (rule suffix_skip)
      with 1(1) have "suffix (s @ [l]) (ys @ [y])" by simp
      then show ?thesis by blast
    next
      case 2
      with snoc.IH snoc.prems(2) have "sublist (s @ [l]) a \<or> sublist (s @ [l]) ys" by blast
      then show ?thesis by (auto intro: sublist_snoc_right)
    qed
  qed
qed

lemma sublist_end_marker:
  assumes "sublist (s @ [d]) (a @ b)" "d \<notin> set b"
  shows "sublist (s @ [d]) a"
  using assms
proof (induction b rule: rev_induct)
  case Nil
  then show ?case by simp
next
  case (snoc y ys)
  from snoc.prems(1) have "sublist (s @ [d]) ((a @ ys) @ [y])" by simp
  moreover from snoc.prems(2) have "d \<noteq> y" "d \<notin> set ys" by auto
  ultimately have "sublist (s @ [d]) (a @ ys)" unfolding snoc_sublist_snoc by blast
  with snoc.IH \<open>d \<notin> set ys\<close> show ?case by blast
qed

lemma sublist_at_marker:
  assumes "sublist (s @ [d]) (a @ d # b)" "d \<notin> set s"
  shows "sublist (s @ [d]) (a @ [d]) \<or> sublist (s @ [d]) b"
  using assms(1)
proof (induction b rule: rev_induct)
  case Nil
  then show ?case by simp
next
  case (snoc y ys)
  from snoc.prems have "sublist (s @ [d]) ((a @ d # ys) @ [y])" by simp
  then consider "d = y" "suffix s (a @ d # ys)" | "sublist (s @ [d]) (a @ d # ys)"
    unfolding snoc_sublist_snoc by blast
  then show ?case
  proof cases
    case 1
    from 1(2) assms(2) have "suffix s ys" by (rule suffix_skip)
    with 1(1) have "suffix (s @ [d]) (ys @ [y])" by simp
    then show ?thesis by blast
  next
    case 2
    with snoc.IH have "sublist (s @ [d]) (a @ [d]) \<or> sublist (s @ [d]) ys" by blast
    then show ?thesis by (auto intro: sublist_snoc_right)
  qed
qed

lemma sublist_last_marker:
  assumes "sublist (s @ [d]) (z @ [d])" "d \<notin> set z"
  shows "set s \<subseteq> set z"
proof -
  from assms(1) have "suffix s z \<or> sublist (s @ [d]) z"
    unfolding snoc_sublist_snoc by blast
  then show ?thesis
  proof
    assume "suffix s z"
    then show ?thesis by (rule set_mono_suffix)
  next
    assume "sublist (s @ [d]) z"
    then have "set (s @ [d]) \<subseteq> set z" by (rule set_mono_sublist)
    then show ?thesis by simp
  qed
qed

lemma no_pattern_in_chunk:
  assumes d: "d \<notin> set s" and nl: "nl \<notin> set s" "nl \<noteq> d"
    and z: "d \<notin> set z" "\<not> set s \<subseteq> set z" and h: "d \<notin> set h"
    and name: "\<not> sublist (s @ [d]) (n @ [d])"
    and payload: "\<not> sublist (s @ [d]) payload"
  shows "\<not> sublist (s @ [d]) ((n @ [d] @ z @ [d] @ h @ [nl] @ payload) @ s)"
proof
  assume "sublist (s @ [d]) ((n @ [d] @ z @ [d] @ h @ [nl] @ payload) @ s)"
  with d have "sublist (s @ [d]) (n @ [d] @ z @ [d] @ h @ [nl] @ payload)"
    by (rule sublist_end_marker [rotated])
  then have "sublist (s @ [d]) ((n @ [d] @ z @ [d] @ h) @ nl # payload)" by simp
  moreover from nl have "nl \<notin> set (s @ [d])" by simp
  ultimately have "sublist (s @ [d]) (n @ [d] @ z @ [d] @ h) \<or> sublist (s @ [d]) payload"
    by (rule sublist_skip_absent)
  with payload have "sublist (s @ [d]) ((n @ [d] @ z @ [d]) @ h)" by simp
  with h have "sublist (s @ [d]) (n @ [d] @ z @ [d])" by (rule sublist_end_marker [rotated])
  then have "sublist (s @ [d]) (n @ d # (z @ [d]))" by simp
  with d have "sublist (s @ [d]) (n @ [d]) \<or> sublist (s @ [d]) (z @ [d])"
    by (rule sublist_at_marker [rotated])
  with name have "sublist (s @ [d]) (z @ [d])" by simp
  with z(1) have "set s \<subseteq> set z" by (rule sublist_last_marker [rotated])
  with z(2) show False by simp
qed

lemma not_sublist_butlast: "pat \<noteq> [] \<Longrightarrow> \<not> sublist pat (butlast pat)"
proof
  assume ne: "pat \<noteq> []" and sub: "sublist pat (butlast pat)"
  from sub have "length pat \<le> length (butlast pat)" by (rule sublist_length_le)
  with ne show False by (cases pat rule: rev_cases) simp_all
qed

lemma prefix_append_short:
  "prefix sep (xs @ ys) \<Longrightarrow> length sep \<le> length xs \<Longrightarrow> prefix sep xs"
  by (auto simp: prefix_append)

lemma split_once_None: "\<not> sublist sep s \<Longrightarrow> split_once sep s = None"
  by (induction s) (auto simp: sublist_Cons_right)

lemma split_once_first:
  assumes "sep \<noteq> []" "\<not> sublist sep (u @ butlast sep)"
  shows "split_once sep (u @ sep @ v) = Some (u, v)"
  using assms(2)
proof (induction u)
  case Nil
  from assms(1) obtain x xs where "sep = x # xs" by (cases sep) auto
  then show ?case by simp
next
  case (Cons a u)
  have "\<not> prefix sep (a # u @ sep @ v)"
  proof
    assume p: "prefix sep (a # u @ sep @ v)"
    have "a # u @ sep @ v = (a # u @ butlast sep) @ (last sep # v)"
      using assms(1) by simp
    moreover have "length sep \<le> length (a # u @ butlast sep)" by simp
    ultimately have "prefix sep (a # u @ butlast sep)"
      using p prefix_append_short by metis
    then have "sublist sep ((a # u) @ butlast sep)" by auto
    with Cons.prems show False by simp
  qed
  moreover have "\<not> sublist sep (u @ butlast sep)"
    using Cons.prems by (auto simp: sublist_Cons_right)
  ultimately show ?case using Cons.IH by simp
qed

lemma split_once_here:
  "d \<notin> set u \<Longrightarrow> split_once [d] (u @ d # v) = Some (u, v)"
  by (induction u) auto

lemma split_all_none: "\<not> sublist sep s \<Longrightarrow> split_all sep s = [s]"
  by (simp add: split_all.simps split_once_None)

lemma split_all_first:
  "sep \<noteq> [] \<Longrightarrow> \<not> sublist sep (u @ butlast sep) \<Longrightarrow>
     split_all sep (u @ sep @ v) = u # split_all sep v"
  by (subst split_all.simps) (simp add: split_once_first)

lemma split_all_chunks_aux:
  assumes "pat \<noteq> []" "\<forall>c \<in> set (c0 # cs). \<not> sublist pat (c @ butlast pat)"
  shows "split_all pat (c0 @ concat (map ((@) pat) cs)) = c0 # cs"
  using assms(2)
proof (induction cs arbitrary: c0)
  case Nil
  then have "\<not> sublist pat c0"
    by (metis list.set_intros(1) sublist_append_rightI sublist_order.order.trans)
  then show ?case by (simp add: split_all_none)
next
  case (Cons c1 cs)
  from Cons.prems have "\<not> sublist pat (c0 @ butlast pat)" by simp
  with assms(1)
  have "split_all pat (c0 @ pat @ (c1 @ concat (map ((@) pat) cs)))
          = c0 # split_all pat (c1 @ concat (map ((@) pat) cs))"
    by (rule split_all_first)
  moreover from Cons.prems have "\<forall>c \<in> set (c1 # cs). \<not> sublist pat (c @ butlast pat)" by simp
  ultimately show ?case using Cons.IH by simp
qed

lemma split_all_chunks:
  assumes "pat \<noteq> []" "\<forall>c \<in> set cs. \<not> sublist pat (c @ butlast pat)"
  shows "split_all pat (concat (map ((@) pat) cs)) = [] # cs"
proof -
  from assms have "\<forall>c \<in> set ([] # cs). \<not> sublist pat (c @ butlast pat)"
    by (simp add: not_sublist_butlast)
  from split_all_chunks_aux [OF assms(1) this] show ?thesis by simp
qed

section \<open>Iterating over inputs and parts\<close>

lemma merge_loop_existing:
  "merge_loop enc read s d out inputs = merge_loop enc Some s d out (existing read inputs)"
  by (induction inputs arbitrary: out) (auto split: option.splits sum.splits)

lemma merge_existing:
  "merge enc read s d inputs = merge enc Some s d (existing read inputs)"
  unfolding merge_def by (rule merge_loop_existing)

lemma existing_append:
  "existing read (xs @ ys) = existing read xs @ existing read ys"
  by (induction xs) (auto split: option.splits)

lemma encode_error: "encode enc s = Inl e \<Longrightarrow> e = UnicodeEncodeError"
  by (induction s arbitrary: e) (auto split: option.splits sum.splits)

lemma encode_nonempty: "encode enc s = Inr b \<Longrightarrow> s \<noteq> [] \<Longrightarrow> b \<noteq> []"
  by (cases s) (auto simp: encode_cp_def utf8_cp_def split: option.splits sum.splits codec.splits if_splits)

lemma merge_loop_records:
  "merge_loop enc Some s d out entries
     = (out @ concat (map (record_of enc s d) (takeWhile (encodable enc s d) entries)),
        if list_all (encodable enc s d) entries then None else Some UnicodeEncodeError)"
proof (induction entries arbitrary: out)
  case Nil
  then show ?case by simp
next
  case (Cons e es)
  obtain name data where e: "e = (name, data)" by (cases e)
  show ?case
  proof (cases "encode enc (header_line s d name data)")
    case (Inl err)
    then have "err = UnicodeEncodeError" by (rule encode_error)
    with Inl e show ?thesis by (simp add: encodable_def header_line_def)
  next
    case (Inr line)
    with e Cons.IH [of "out @ line @ data"] show ?thesis
      by (simp add: encodable_def record_of_def bytes_of_def header_line_def)
  qed
qed

lemma merge_records:
  "merge enc read s d inputs
     = (concat (map (record_of enc s d) (takeWhile (encodable enc s d) (existing read inputs))),
        if list_all (encodable enc s d) (existing read inputs) then None
        else Some UnicodeEncodeError)"
proof -
  have "merge enc read s d inputs = merge_loop enc Some s d [] (existing read inputs)"
    unfolding merge_def by (rule merge_loop_existing)
  then show ?thesis by (simp add: merge_loop_records)
qed

lemma takeWhile_all: "list_all P xs \<Longrightarrow> takeWhile P xs = xs"
  by (induction xs) auto

lemma existing_filter:
  "existing read inputs
     = map (\<lambda>(dst_name, input_filename). (dst_name, the (read input_filename)))
         (filter (\<lambda>(dst_name, input_filename). read input_filename \<noteq> None) inputs)"
  by (induction inputs) (auto split: option.splits)

lemma record_nonempty:
  "encodable enc s d e \<Longrightarrow> record_of enc s d e \<noteq> []"
  by (cases e)
    (auto simp: encodable_def record_of_def bytes_of_def header_line_def split: sum.splits
          dest!: encode_nonempty)

lemma write_all_append:
  "write_all join files (xs @ ys) = write_all join (write_all join files xs) ys"
  by (simp add: write_all_def)

lemma write_all_Cons:
  "write_all join files ((n, c) # es) = write_all join (files(join n \<mapsto> c)) es"
  unfolding write_all_def by (simp only: foldl.simps prod.case)

lemma write_all_other:
  "p \<notin> join ` fst ` set es \<Longrightarrow> write_all join files es p = files p"
proof (induction es arbitrary: files)
  case Nil
  then show ?case by (simp add: write_all_def)
next
  case (Cons e es)
  obtain n c where e: "e = (n, c)" by (cases e)
  have "write_all join files (e # es) = write_all join (files(join n \<mapsto> c)) es"
    unfolding write_all_def e by (simp only: foldl.simps prod.case)
  with Cons e show ?case by simp
qed

lemma write_all_map_of:
  "write_all join files entries = files ++ map_of (rev (map (\<lambda>(n, c). (join n, c)) entries))"
proof (induction entries arbitrary: files)
  case Nil
  then show ?case by (simp add: write_all_def)
next
  case (Cons e es)
  obtain n c where e: "e = (n, c)" by (cases e)
  have "write_all join files (e # es) = write_all join (files(join n \<mapsto> c)) es"
    unfolding write_all_def e by (simp only: foldl.simps prod.case)
  also have "\<dots> = files(join n \<mapsto> c) ++ map_of (rev (map (\<lambda>(n, c). (join n, c)) es))"
    by (rule Cons.IH)
  also have "\<dots> = files ++ map_of (rev (map (\<lambda>(n, c). (join n, c)) (e # es)))"
    unfolding e by (simp add: map_add_assoc [symmetric])
  finally show ?case .
qed

lemma bind_all_append:
  "bind_all join d (xs @ ys) = bind_all join (bind_all join d xs) ys"
  by (simp add: bind_all_def)

lemma bind_all_Cons:
  "bind_all join d ((n, c) # es) = bind_all join (d(n \<mapsto> join n)) es"
  unfolding bind_all_def by (simp only: foldl.simps prod.case)

lemma bind_all_other:
  "name \<notin> fst ` set es \<Longrightarrow> bind_all join d es name = d name"
proof (induction es arbitrary: d)
  case Nil
  then show ?case by (simp add: bind_all_def)
next
  case (Cons e es)
  obtain n c where e: "e = (n, c)" by (cases e)
  have "bind_all join d (e # es) = bind_all join (d(n \<mapsto> join n)) es"
    unfolding bind_all_def e by (simp only: foldl.simps prod.case)
  with Cons e show ?case by simp
qed

lemma bind_all_map_of:
  "bind_all join d entries = d ++ map_of (rev (map (\<lambda>(n, c). (n, join n)) entries))"
proof (induction entries arbitrary: d)
  case Nil
  then show ?case by (simp add: bind_all_def)
next
  case (Cons e es)
  obtain n c where e: "e = (n, c)" by (cases e)
  have "bind_all join d (e # es) = bind_all join (d(n \<mapsto> join n)) es"
    unfolding bind_all_def e by (simp only: foldl.simps prod.case)
  also have "\<dots> = d(n \<mapsto> join n) ++ map_of (rev (map (\<lambda>(n, c). (n, join n)) es))"
    by (rule Cons.IH)
  also have "\<dots> = d ++ map_of (rev (map (\<lambda>(n, c). (n, join n)) (e # es)))"
    unfolding e by (simp add: map_add_assoc [symmetric])
  finally show ?case .
qed

lemma write_all_distinct:
  assumes "distinct (map (\<lambda>(name, data). join name) entries)"
  shows "write_all join Map.empty entries = map_of (map (\<lambda>(name, data). (join name, data)) entries)"
proof -
  have eq: "map fst (map (\<lambda>(name, data). (join name, data)) entries)
          = map (\<lambda>(name, data). join name) entries" by (induction entries) auto
  have d: "distinct (map fst (map (\<lambda>(name, data). (join name, data)) entries))"
    unfolding eq by (rule assms)
  then have "distinct (map fst (rev (map (\<lambda>(name, data). (join name, data)) entries)))"
    by (simp add: rev_map [symmetric])
  with d have "map_of (rev (map (\<lambda>(name, data). (join name, data)) entries))
                 = map_of (map (\<lambda>(name, data). (join name, data)) entries)"
    by (simp add: map_of_inject_set)
  then show ?thesis by (simp add: write_all_map_of)
qed

lemma bind_all_distinct:
  assumes "distinct (map fst entries)"
  shows "bind_all join Map.empty entries = map_of (map (\<lambda>(name, data). (name, join name)) entries)"
proof -
  have eq: "map fst (map (\<lambda>(name, data). (name, join name)) entries) = map fst entries"
    by (induction entries) auto
  have d: "distinct (map fst (map (\<lambda>(name, data). (name, join name)) entries))"
    unfolding eq by (rule assms)
  then have "distinct (map fst (rev (map (\<lambda>(name, data). (name, join name)) entries)))"
    by (simp add: rev_map [symmetric])
  with d have "map_of (rev (map (\<lambda>(name, data). (name, join name)) entries))
                 = map_of (map (\<lambda>(name, data). (name, join name)) entries)"
    by (simp add: map_of_inject_set)
  then show ?thesis by (simp add: bind_all_map_of)
qed

lemma split_loop_append:
  "map (parse_part delimiter) parts = map Inr entries \<Longrightarrow> written os join files entries \<Longrightarrow>
     split_loop os join delimiter files d (parts @ rest)
       = split_loop os join delimiter (write_all join files entries) (bind_all join d entries) rest"
proof (induction parts arbitrary: entries files d)
  case Nil
  then show ?case by (simp add: write_all_def bind_all_def)
next
  case (Cons p ps)
  then obtain e es where es: "entries = e # es" "parse_part delimiter p = Inr e"
    "map (parse_part delimiter) ps = map Inr es"
    by (cases entries) auto
  obtain n c where e: "e = (n, c)" by (cases e)
  from Cons.prems(2) es(1) e
  have w: "mkdir_parent os files (join n) = None"
    "write_bytes os files (join n) c = (files(join n \<mapsto> c), None)"
    "written os join (files(join n \<mapsto> c)) es"
    by simp_all
  have "split_loop os join delimiter files d ((p # ps) @ rest)
          = split_loop os join delimiter (files(join n \<mapsto> c)) (d(n \<mapsto> join n)) (ps @ rest)"
    using es(2) e w(1,2) by simp
  also have "\<dots> = split_loop os join delimiter (write_all join (files(join n \<mapsto> c)) es)
                      (bind_all join (d(n \<mapsto> join n)) es) rest"
    by (rule Cons.IH [OF es(3) w(3)])
  also have "\<dots> = split_loop os join delimiter (write_all join files entries)
                      (bind_all join d entries) rest"
    by (simp only: es(1) e write_all_Cons bind_all_Cons)
  finally show ?case .
qed

lemma split_loop_refused:
  "map (parse_part delimiter) parts = map Inr entries \<Longrightarrow> refused os join files entries \<Longrightarrow>
     \<exists>e. snd (split_loop os join delimiter files d (parts @ rest)) = Inl e"
proof (induction parts arbitrary: entries files d)
  case Nil
  then show ?case by simp
next
  case (Cons p ps)
  then obtain e es where es: "entries = e # es" "parse_part delimiter p = Inr e"
    "map (parse_part delimiter) ps = map Inr es"
    by (cases entries) auto
  obtain n c where e: "e = (n, c)" by (cases e)
  show ?case
  proof (cases "mkdir_parent os files (join n)")
    case (Some err)
    with es(2) e show ?thesis by simp
  next
    case None
    obtain files' r where w: "write_bytes os files (join n) c = (files', r)"
      by (cases "write_bytes os files (join n) c")
    show ?thesis
    proof (cases r)
      case (Some err)
      with None w es(2) e show ?thesis by simp
    next
      case r: None
      with None w Cons.prems(2) es(1) e have "refused os join files' es"
        by simp
      from Cons.IH [OF es(3) this, of "d(n \<mapsto> join n)"] obtain err where
        "snd (split_loop os join delimiter files' (d(n \<mapsto> join n)) (ps @ rest)) = Inl err" ..
      moreover have "split_loop os join delimiter files d ((p # ps) @ rest)
          = split_loop os join delimiter files' (d(n \<mapsto> join n)) (ps @ rest)"
        using None w r es(2) e by simp
      ultimately have "snd (split_loop os join delimiter files d ((p # ps) @ rest)) = Inl err"
        by (simp only:)
      then show ?thesis ..
    qed
  qed
qed

lemma split_parts:
  assumes "encode encoding (sentinel @ delimiter) = Inr pat" "pat \<noteq> []"
    and "split_all pat content = lead # parts"
  shows "split encoding os join sentinel delimiter content files
           = split_loop os join delimiter files Map.empty parts"
  using assms by (simp add: split_def)

lemma split_loop_stops:
  "parse_part delimiter part = Inl e \<Longrightarrow>
     split_loop os join delimiter files d (part # rest) = (files, Inl e)"
  by simp

lemma split_fails_at:
  assumes "encode encoding (sentinel @ delimiter) = Inr pat" "pat \<noteq> []"
    and "split_all pat content = lead # before @ part # after"
    and "map (parse_part delimiter) before = map Inr entries"
    and "written os join files entries"
    and "parse_part delimiter part = Inl e"
  shows "split encoding os join sentinel delimiter content files
           = (write_all join files entries, Inl e)"
proof -
  from assms(6)
  have "split_loop os join delimiter (write_all join files entries)
          (bind_all join Map.empty entries) (part # after)
        = (write_all join files entries, Inl e)"
    by (rule split_loop_stops)
  with split_loop_append [OF assms(4,5), of Map.empty "part # after"]
    split_parts [OF assms(1-3), of os join files]
  show ?thesis by simp
qed

lemma split_refused_at:
  assumes "encode encoding (sentinel @ delimiter) = Inr pat" "pat \<noteq> []"
    and "split_all pat content = lead # before @ part # after"
    and "map (parse_part delimiter) before = map Inr entries"
    and "written os join files entries"
    and "parse_part delimiter part = Inr (filename, file_content)"
  shows "mkdir_parent os (write_all join files entries) (join filename) = Some e \<Longrightarrow>
           split encoding os join sentinel delimiter content files
             = (write_all join files entries, Inl e)"
    and "mkdir_parent os (write_all join files entries) (join filename) = None \<Longrightarrow>
         write_bytes os (write_all join files entries) (join filename) file_content
           = (files', Some e) \<Longrightarrow>
           split encoding os join sentinel delimiter content files = (files', Inl e)"
proof -
  note loop = split_loop_append [OF assms(4,5), of Map.empty "part # after"]
    split_parts [OF assms(1-3), of os join files]
  show "split encoding os join sentinel delimiter content files
             = (write_all join files entries, Inl e)"
    if "mkdir_parent os (write_all join files entries) (join filename) = Some e"
    using that loop assms(6) by simp
  show "split encoding os join sentinel delimiter content files = (files', Inl e)"
    if "mkdir_parent os (write_all join files entries) (join filename) = None"
      "write_bytes os (write_all join files entries) (join filename) file_content
         = (files', Some e)"
    using that loop assms(6) by simp
qed

lemma parse_part_mismatch:
  assumes "split_once [CHR 0x0A] part = Some (header, body)"
    and "delimiter \<noteq> []" "decode_utf8 header = Some decoded"
    and "rsplit delimiter 2 decoded = [filename, size_str, checksum]"
    and "py_int size_str = Some n"
    and "sha256 (slice_to n body) \<noteq> checksum"
  shows "parse_part delimiter part
           = Inl (ChecksumMismatch filename checksum (sha256 (slice_to n body)))"
  using assms by (simp add: parse_part_def)

lemma parse_part_invalid_header:
  assumes "split_once [CHR 0x0A] part = Some (header, body)"
    and "delimiter = [] \<or> decode_utf8 header = None
         \<or> (\<exists>decoded. decode_utf8 header = Some decoded \<and> length (rsplit delimiter 2 decoded) \<noteq> 3)"
  shows "parse_part delimiter part = Inl (InvalidHeader header)"
  using assms by (auto simp: parse_part_def split: list.splits)

lemma parse_part_invalid_literal:
  assumes "split_once [CHR 0x0A] part = Some (header, body)"
    and "delimiter \<noteq> []" "decode_utf8 header = Some decoded"
    and "rsplit delimiter 2 decoded = [filename, size_str, checksum]"
    and "py_int size_str = None"
  shows "parse_part delimiter part = Inl (InvalidLiteral size_str)"
  using assms by (simp add: parse_part_def)

section \<open>UTF-8\<close>

text \<open>Decoding inverts encoding, and an ASCII byte of the encoding is a character of the text.\<close>

lemma encode_append:
  "encode enc (a @ b) =
     (case encode enc a of
        Inl e \<Rightarrow> Inl e
      | Inr x \<Rightarrow> (case encode enc b of Inl e \<Rightarrow> Inl e | Inr y \<Rightarrow> Inr (x @ y)))"
  by (induction a) (auto split: option.splits sum.splits)

lemma encode_append_Inr:
  "encode enc a = Inr x \<Longrightarrow> encode enc b = Inr y \<Longrightarrow> encode enc (a @ b) = Inr (x @ y)"
  by (simp add: encode_append)

lemma encode_append_InrD:
  "encode enc (a @ b) = Inr z \<Longrightarrow>
     \<exists>x y. encode enc a = Inr x \<and> encode enc b = Inr y \<and> z = x @ y"
  by (auto simp: encode_append split: sum.splits)

lemma of_char_cont: "of_char (cont n) = (128 + n mod 64 :: nat)"
  by (simp add: cont_def)

lemma is_cont_cont: "is_cont (cont n)"
  by (simp add: is_cont_def of_char_cont)

lemma lo6_cont: "lo6 (cont n) = n mod 64"
proof -
  have "(128 + n mod 64) mod 64 = (2 * 64 + n mod 64) mod 64" by simp
  also have "\<dots> = n mod 64" by (simp only: mod_mult_self3) simp
  finally show ?thesis by (simp only: lo6_def of_char_cont)
qed

lemma div_64_64: "(c::nat) div 64 div 64 = c div 4096"
  by (simp add: div_mult2_eq [symmetric])

lemma div_64_4096: "(c::nat) div 64 div 4096 = c div 262144"
  by (simp add: div_mult2_eq [symmetric])

lemma join2: "(q::nat) div 64 * 64 + q mod 64 = q"
  by simp

lemma join3: "(c::nat) div 4096 * 4096 + c div 64 mod 64 * 64 + c mod 64 = c"
proof -
  have "c div 4096 * 4096 + c div 64 mod 64 * 64 = (c div 64 div 64 * 64 + c div 64 mod 64) * 64"
    by (simp only: div_64_64 add_mult_distrib)
  also have "\<dots> = c div 64 * 64" by (simp only: join2)
  finally show ?thesis by simp
qed

lemma join4:
  "(c::nat) div 262144 * 262144 + c div 4096 mod 64 * 4096 + c div 64 mod 64 * 64 + c mod 64 = c"
proof -
  have "c div 262144 * 262144 + c div 4096 mod 64 * 4096 + c div 64 mod 64 * 64
          = (c div 64 div 4096 * 4096 + c div 64 div 64 mod 64 * 64 + c div 64 mod 64) * 64"
    by (simp only: div_64_64 div_64_4096 add_mult_distrib)
  also have "\<dots> = c div 64 * 64" by (simp only: join3 [of "c div 64"])
  finally show ?thesis by simp
qed

lemma cp2_utf8: "c < 0x800 \<Longrightarrow> cp2 (char_of (0xC0 + c div 64)) (cont c) = c"
proof -
  assume "c < 0x800"
  then have "c div 64 < 32" by simp
  then have "of_char (char_of (0xC0 + c div 64)) = (0xC0 + c div 64 :: nat)" by simp
  then show ?thesis by (simp only: cp2_def lo6_cont) simp
qed

lemma cp3_utf8:
  "c < 0x10000 \<Longrightarrow> cp3 (char_of (0xE0 + c div 4096)) (cont (c div 64)) (cont c) = c"
proof -
  assume "c < 0x10000"
  then have "c div 4096 < 16" by simp
  then have "of_char (char_of (0xE0 + c div 4096)) = (0xE0 + c div 4096 :: nat)" by simp
  then have "cp3 (char_of (0xE0 + c div 4096)) (cont (c div 64)) (cont c)
               = c div 4096 * 4096 + c div 64 mod 64 * 64 + c mod 64"
    by (simp only: cp3_def lo6_cont) simp
  then show ?thesis by (simp only: join3)
qed

lemma cp4_utf8:
  "c < 0x110000 \<Longrightarrow>
     cp4 (char_of (0xF0 + c div 262144)) (cont (c div 4096)) (cont (c div 64)) (cont c) = c"
proof -
  assume "c < 0x110000"
  then have "c div 262144 < 5" by simp
  then have "of_char (char_of (0xF0 + c div 262144)) = (0xF0 + c div 262144 :: nat)" by simp
  then have "cp4 (char_of (0xF0 + c div 262144)) (cont (c div 4096)) (cont (c div 64)) (cont c)
               = c div 262144 * 262144 + c div 4096 mod 64 * 4096 + c div 64 mod 64 * 64 + c mod 64"
    by (simp only: cp4_def lo6_cont) simp
  then show ?thesis by (simp only: join4)
qed

lemma decode_utf8_cp:
  assumes "utf8_cp c = Some x"
  shows "decode_utf8 (x @ rest) = map_option ((#) c) (decode_utf8 rest)"
proof -
  consider "c < 0x80" | "0x80 \<le> c" "c < 0x800"
    | "0x800 \<le> c" "c < 0x10000" "\<not> (0xD800 \<le> c \<and> c < 0xE000)"
    | "0x10000 \<le> c" "c < 0x110000"
    using assms by (auto simp: utf8_cp_def split: if_splits)
  then show ?thesis
  proof cases
    case 1
    with assms have "x = [char_of c]" by (simp add: utf8_cp_def)
    with 1 show ?thesis by simp
  next
    case 2
    with assms have x: "x = [char_of (0xC0 + c div 64), cont c]" by (simp add: utf8_cp_def)
    from 2 have b: "c div 64 < 32" "2 \<le> c div 64" by simp_all
    then have o: "of_char (char_of (0xC0 + c div 64)) = (0xC0 + c div 64 :: nat)" by simp
    from b show ?thesis unfolding x
      by (simp add: o is_cont_cont cp2_utf8 [OF 2(2)] del: of_char_of)
  next
    case 3
    with assms have x: "x = [char_of (0xE0 + c div 4096), cont (c div 64), cont c]"
      by (auto simp: utf8_cp_def)
    from 3 have b: "c div 4096 < 16" by simp
    then have o: "of_char (char_of (0xE0 + c div 4096)) = (0xE0 + c div 4096 :: nat)" by simp
    from b 3 show ?thesis unfolding x
      by (simp add: o is_cont_cont cp3_utf8 [OF 3(2)] del: of_char_of)
  next
    case 4
    with assms have x: "x = [char_of (0xF0 + c div 262144), cont (c div 4096), cont (c div 64), cont c]"
      by (auto simp: utf8_cp_def)
    from 4 have b: "c div 262144 < 5" by simp
    then have o: "of_char (char_of (0xF0 + c div 262144)) = (0xF0 + c div 262144 :: nat)" by simp
    from b 4 show ?thesis unfolding x
      by (simp add: o is_cont_cont cp4_utf8 [OF 4(2)] del: of_char_of)
  qed
qed

lemma decode_encode_utf8: "encode Utf8 s = Inr bs \<Longrightarrow> decode_utf8 bs = Some s"
proof (induction s arbitrary: bs)
  case Nil
  then show ?case by simp
next
  case (Cons c cs)
  then obtain x ys where x: "utf8_cp c = Some x" and ys: "encode Utf8 cs = Inr ys"
    and bs: "bs = x @ ys"
    by (auto simp: encode_cp_def split: option.splits sum.splits)
  from Cons.IH [OF ys] decode_utf8_cp [OF x, of ys] bs show ?case by simp
qed

lemma utf8_cp_high:
  assumes "utf8_cp c = Some x" "128 \<le> c"
  shows "x \<noteq> [] \<and> (\<forall>b \<in> set x. 128 \<le> (of_char b :: nat))"
proof -
  have a: "128 \<le> (of_char (cont n) :: nat)" for n by (simp add: of_char_cont)
  consider "c < 0x800" | "0x800 \<le> c" "c < 0x10000" | "0x10000 \<le> c" "c < 0x110000"
    using assms by (auto simp: utf8_cp_def split: if_splits)
  then show ?thesis
  proof cases
    case 1
    then have "c div 64 < 32" by simp
    then have "of_char (char_of (0xC0 + c div 64)) = (0xC0 + c div 64 :: nat)" by simp
    with 1 assms a show ?thesis by (auto simp: utf8_cp_def simp del: of_char_of)
  next
    case 2
    then have "c div 4096 < 16" by simp
    then have "of_char (char_of (0xE0 + c div 4096)) = (0xE0 + c div 4096 :: nat)" by simp
    with 2 assms a show ?thesis by (auto simp: utf8_cp_def simp del: of_char_of split: if_splits)
  next
    case 3
    then have "c div 262144 < 5" by simp
    then have "of_char (char_of (0xF0 + c div 262144)) = (0xF0 + c div 262144 :: nat)" by simp
    with 3 assms a show ?thesis by (auto simp: utf8_cp_def simp del: of_char_of split: if_splits)
  qed
qed

lemma utf8_cp_ascii_mem:
  assumes "utf8_cp c = Some x" "a < 128"
  shows "char_of a \<in> set x \<longleftrightarrow> a = c"
proof (cases "c < 128")
  case True
  with assms show ?thesis by (auto simp: utf8_cp_def)
next
  case False
  with assms(1) have "\<forall>b \<in> set x. 128 \<le> (of_char b :: nat)" using utf8_cp_high by simp
  moreover from assms(2) have "of_char (char_of a) = a" by simp
  ultimately have "char_of a \<notin> set x" using assms(2) by (metis not_le)
  with False assms(2) show ?thesis by auto
qed

lemma encode_utf8_ascii_mem:
  "encode Utf8 s = Inr bs \<Longrightarrow> a < 128 \<Longrightarrow> char_of a \<in> set bs \<longleftrightarrow> a \<in> set s"
proof (induction s arbitrary: bs)
  case Nil
  then show ?case by simp
next
  case (Cons c cs)
  then obtain x ys where x: "utf8_cp c = Some x" and ys: "encode Utf8 cs = Inr ys"
    and bs: "bs = x @ ys"
    by (auto simp: encode_cp_def split: option.splits sum.splits)
  from Cons.IH [OF ys Cons.prems(2)] utf8_cp_ascii_mem [OF x Cons.prems(2)] bs
  show ?case by auto
qed

lemma encode_utf8_ascii:
  "\<forall>c \<in> set s. c < 128 \<Longrightarrow> encode Utf8 s = Inr (map char_of s)"
  by (induction s) (simp_all add: encode_cp_def utf8_cp_def)

lemma encode_utf8_nondigit:
  "encode Utf8 s = Inr bs \<Longrightarrow> c \<in> set s \<Longrightarrow> \<not> is_digit c \<Longrightarrow>
     \<exists>b \<in> set bs. \<not> is_digit (of_char b)"
proof (induction s arbitrary: bs)
  case Nil
  then show ?case by simp
next
  case (Cons c' cs)
  then obtain x ys where x: "utf8_cp c' = Some x" and ys: "encode Utf8 cs = Inr ys"
    and bs: "bs = x @ ys"
    by (auto simp: encode_cp_def split: option.splits sum.splits)
  show ?case
  proof (cases "c = c'")
    case True
    show ?thesis
    proof (cases "c < 128")
      case True
      with x \<open>c = c'\<close> have "x = [char_of c]" by (simp add: utf8_cp_def)
      with True Cons.prems(3) bs show ?thesis by simp
    next
      case False
      with x \<open>c = c'\<close> utf8_cp_high [of c x]
      obtain b where "b \<in> set x" "128 \<le> (of_char b :: nat)" by (cases x) auto
      then have "b \<in> set bs" "\<not> is_digit (of_char b)" using bs by (auto simp: is_digit_def)
      then show ?thesis by blast
    qed
  next
    case False
    with Cons.prems have "c \<in> set cs" by simp
    from Cons.IH [OF ys this Cons.prems(3)] bs show ?thesis by auto
  qed
qed

lemma encode_newline: "encode Utf8 [0x0A] = Inr [CHR 0x0A]"
  by (simp add: encode_cp_def utf8_cp_def char_of_eq_iff)

section \<open>Sizes and checksums as text\<close>

lemma is_digit_hex: "is_digit c \<Longrightarrow> is_hex c"
  by (simp add: is_digit_def is_hex_def)

lemma is_hex_ascii: "is_hex c \<Longrightarrow> c < 128"
  by (auto simp: is_hex_def)

lemma show_nat_digits: "c \<in> set (show_nat n) \<Longrightarrow> is_digit c"
proof (induction n arbitrary: c rule: show_nat.induct)
  case (1 n)
  show ?case
  proof (cases "n < 10")
    case True
    with "1.prems" show ?thesis by (simp add: show_nat.simps [of n] is_digit_def)
  next
    case False
    with "1.prems" have "c \<in> set (show_nat (n div 10)) \<or> c = 48 + n mod 10"
      by (auto simp add: show_nat.simps [of n])
    then show ?thesis
    proof
      assume "c \<in> set (show_nat (n div 10))"
      with False "1.IH" show ?thesis by simp
    next
      assume "c = 48 + n mod 10"
      moreover have "n mod 10 < 10" by simp
      ultimately show ?thesis unfolding is_digit_def by linarith
    qed
  qed
qed

lemma show_nat_nonempty: "show_nat n \<noteq> []"
  by (simp add: show_nat.simps [of n])

lemma hexdigit_hex: "k < 16 \<Longrightarrow> is_hex (hexdigit k)"
  by (auto simp: hexdigit_def is_hex_def)

lemma hex32_hex: "c \<in> set (hex32 w) \<Longrightarrow> is_hex c"
  by (auto simp: hex32_def intro!: hexdigit_hex)

lemma sha256_hex: "c \<in> set (sha256 data) \<Longrightarrow> is_hex c"
  by (auto simp: sha256_def dest: hex32_hex)

lemma digit_value_ascii: "is_digit c \<Longrightarrow> digit_value c = Some (c - 48)"
  by (simp add: digit_value_def decimal_zeros_def is_digit_def)

lemma scan_digits_all:
  "\<forall>c \<in> set ds. is_digit c \<Longrightarrow>
     scan_digits acc cnt ds = Some (foldl (\<lambda>a c. 10 * a + (c - 48)) acc ds, cnt + length ds, [])"
  by (induction ds arbitrary: acc cnt) (simp_all add: digit_value_ascii)

lemma value_show_nat: "foldl (\<lambda>a c. 10 * a + (c - 48)) 0 (show_nat n) = n"
proof (induction n rule: show_nat.induct)
  case (1 n)
  show ?case
  proof (cases "n < 10")
    case True
    then show ?thesis by (simp add: show_nat.simps [of n])
  next
    case False
    with "1.IH" show ?thesis by (simp add: show_nat.simps [of n])
  qed
qed

lemma length_show_nat: "n < 10 ^ k \<Longrightarrow> 0 < k \<Longrightarrow> length (show_nat n) \<le> k"
proof (induction n arbitrary: k rule: show_nat.induct)
  case (1 n)
  show ?case
  proof (cases "n < 10")
    case True
    with "1.prems" show ?thesis by (simp add: show_nat.simps [of n])
  next
    case False
    with "1.prems" obtain k' where k: "k = Suc k'" by (cases k) auto
    with "1.prems" False have "0 < k'" by (cases k') auto
    moreover from "1.prems" k have "n div 10 < 10 ^ k'" by (simp add: less_mult_imp_div_less)
    ultimately have "length (show_nat (n div 10)) \<le> k'" using "1.IH" False by simp
    with False k show ?thesis by (simp add: show_nat.simps [of n])
  qed
qed

lemma py_int_show_nat:
  assumes "n < 2 ^ 63"
  shows "py_int (show_nat n) = Some (int n)"
proof -
  obtain c cs where s: "show_nat n = c # cs"
    using show_nat_nonempty [of n] by (cases "show_nat n") auto
  have dig: "\<forall>x \<in> set (c # cs). is_digit x" using show_nat_digits [of _ n] s by auto
  then have c: "is_digit c" by simp
  then have nsp: "\<not> int_space c" "c \<noteq> 0x2D" "c \<noteq> 0x2B"
    by (auto simp: is_digit_def int_space_def)
  have "(2::nat) ^ 63 < 10 ^ 19" by simp
  with assms have "n < 10 ^ 19" by simp
  then have "length (show_nat n) \<le> 19" by (rule length_show_nat) simp
  then have len: "Suc (length cs) \<le> 19" by (simp add: s)
  have "scan_digits 0 0 (c # cs)
          = Some (foldl (\<lambda>a c. 10 * a + (c - 48)) 0 (c # cs), 0 + length (c # cs), [])"
    using dig by (rule scan_digits_all)
  with c have sc: "scan_digits (c - 48) 1 cs = Some (n, Suc (length cs), [])"
    using value_show_nat [of n] by (simp add: s digit_value_ascii)
  from nsp c sc len show ?thesis
    by (simp add: py_int_def s read_sign_def digit_value_ascii int_max_str_digits_def)
qed

lemma rsplit_header:
  assumes "d \<notin> set size_str" "d \<notin> set checksum"
  shows "rsplit [d] 2 (name @ [d] @ size_str @ [d] @ checksum) = [name, size_str, checksum]"
proof -
  have "rev (name @ [d] @ size_str @ [d] @ checksum)
          = rev checksum @ d # (rev size_str @ d # rev name)" by simp
  moreover have "splitn [d] 2 (rev checksum @ d # (rev size_str @ d # rev name))
          = [rev checksum, rev size_str, rev name]"
    using assms by (simp add: numeral_2_eq_2 split_once_here)
  ultimately show ?thesis by (simp add: rsplit_def)
qed

section \<open>The records of an archive\<close>

text \<open>
  What \<open>merge\<close> writes for acceptable entries, that the pattern occurs in it only where
  a record starts, and that each record is parsed back.
\<close>

lemma header_tail_ascii:
  assumes "d < 128"
  shows "encode Utf8 ([d] @ show_nat (length data) @ [d] @ sha256 data)
           = Inr ([char_of d] @ map char_of (show_nat (length data)) @ [char_of d]
                    @ map char_of (sha256 data))"
proof -
  have "\<forall>c \<in> set ([d] @ show_nat (length data) @ [d] @ sha256 data). c < 128"
    using assms by (auto dest!: show_nat_digits sha256_hex is_digit_hex is_hex_ascii)
  from encode_utf8_ascii [OF this] show ?thesis by simp
qed

lemma encode_header_text:
  assumes "d < 128" "encode Utf8 name = Inr encoded"
  shows "encode Utf8 (name @ [d] @ show_nat (length data) @ [d] @ sha256 data)
           = Inr (header_bytes d (name, data))"
proof -
  from assms(2) header_tail_ascii [OF assms(1), of data]
  have "encode Utf8 (name @ [d] @ show_nat (length data) @ [d] @ sha256 data)
           = Inr (encoded @ [char_of d] @ map char_of (show_nat (length data)) @ [char_of d]
                    @ map char_of (sha256 data))"
    by (rule encode_append_Inr)
  with assms(2) show ?thesis by (simp add: header_bytes_def bytes_of_def)
qed

lemma encode_header_line:
  assumes "d < 128" "encode Utf8 name = Inr encoded" "encode Utf8 (sentinel @ [d]) = Inr pat"
  shows "encode Utf8 (header_line sentinel [d] name data)
           = Inr (pat @ header_bytes d (name, data) @ [CHR 0x0A])"
proof -
  have "encode Utf8 ((name @ [d] @ show_nat (length data) @ [d] @ sha256 data) @ [0x0A])
          = Inr (header_bytes d (name, data) @ [CHR 0x0A])"
    using encode_header_text [OF assms(1,2), of data] encode_newline by (rule encode_append_Inr)
  with assms(3)
  have "encode Utf8 ((sentinel @ [d]) @ (name @ [d] @ show_nat (length data) @ [d] @ sha256 data) @ [0x0A])
          = Inr (pat @ header_bytes d (name, data) @ [CHR 0x0A])"
    by (rule encode_append_Inr)
  then show ?thesis by (simp add: header_line_def)
qed

lemma merge_loop_utf8:
  assumes "d < 128" "encode Utf8 (sentinel @ [d]) = Inr pat"
    and "\<forall>e \<in> set entries. entry_ok pat d e"
  shows "merge_loop Utf8 Some sentinel [d] out entries
           = (out @ concat (map (\<lambda>e. pat @ chunk d e) entries), None)"
  using assms(3)
proof (induction entries arbitrary: out)
  case Nil
  then show ?case by simp
next
  case (Cons e es)
  obtain name data where e: "e = (name, data)" by (cases e)
  with Cons.prems obtain encoded where "encode Utf8 name = Inr encoded"
    by (auto simp: entry_ok_def split: sum.splits)
  from encode_header_line [OF assms(1) this assms(2), of data]
  have line: "encode Utf8 (sentinel @ [d] @ (name @ [d] @ show_nat (length data) @ [d] @ sha256 data)
                 @ [0x0A]) = Inr (pat @ header_bytes d (name, data) @ [CHR 0x0A])"
    by (simp add: header_line_def)
  from Cons.prems have "\<forall>e \<in> set es. entry_ok pat d e" by simp
  from Cons.IH [OF this, of "out @ (pat @ header_bytes d (name, data) @ [CHR 0x0A]) @ data"] line e
  show ?case by (simp add: chunk_def)
qed

lemma pattern_nonempty:
  assumes "framing_ok sentinel d" "encode Utf8 (sentinel @ [d]) = Inr pat"
  shows "pat \<noteq> []"
proof -
  from assms(2) obtain x y where "encode Utf8 [d] = Inr y" "pat = x @ y"
    by (auto dest!: encode_append_InrD)
  moreover from assms(1) have "encode Utf8 [d] = Inr [char_of d]"
    by (simp add: framing_ok_def encode_cp_def utf8_cp_def)
  ultimately show ?thesis by simp
qed

lemma merge_utf8:
  assumes "framing_ok sentinel d" "encode Utf8 (sentinel @ [d]) = Inr pat"
    and "\<forall>e \<in> set entries. entry_ok pat d e"
  shows "merge Utf8 Some sentinel [d] entries
           = (concat (map ((@) pat) (map (chunk d) entries)), None)"
proof -
  from assms(1) have "d < 128" by (simp add: framing_ok_def)
  from merge_loop_utf8 [OF this assms(2,3), of "[]"] show ?thesis
    by (simp add: merge_def comp_def)
qed

lemma parse_chunk:
  assumes fr: "framing_ok sentinel d" and ok: "entry_ok pat d (name, data)"
  shows "parse_part [d] (chunk d (name, data)) = Inr (strip name, data)"
proof -
  from fr have d: "d < 128" "\<not> is_hex d" "d \<noteq> 0x0A" by (simp_all add: framing_ok_def)
  from ok obtain encoded where enc: "encode Utf8 name = Inr encoded"
    by (auto simp: entry_ok_def split: sum.splits)
  from ok have nl: "0x0A \<notin> set name" and len: "length data < 2 ^ 63"
    by (simp_all add: entry_ok_def)
  let ?text = "name @ [d] @ show_nat (length data) @ [d] @ sha256 data"
  have htext: "encode Utf8 ?text = Inr (header_bytes d (name, data))"
    using d(1) enc by (rule encode_header_text)
  have dz: "d \<notin> set (show_nat (length data))"
    using d(2) by (auto dest!: show_nat_digits is_digit_hex)
  have dh: "d \<notin> set (sha256 data)"
    using d(2) by (auto dest!: sha256_hex)
  have "10 \<notin> set ?text"
    using nl d(3) by (auto dest!: show_nat_digits sha256_hex simp: is_digit_def is_hex_def)
  moreover have "char_of (10::nat) \<in> set (header_bytes d (name, data)) \<longleftrightarrow> 10 \<in> set ?text"
    using htext by (rule encode_utf8_ascii_mem) simp
  moreover have "char_of (10::nat) = CHR 0x0A" by (simp add: char_of_eq_iff)
  ultimately have "CHR 0x0A \<notin> set (header_bytes d (name, data))" by simp
  then have cut: "split_once [CHR 0x0A] (chunk d (name, data))
                    = Some (header_bytes d (name, data), data)"
    by (simp add: chunk_def split_once_here)
  have dec: "decode_utf8 (header_bytes d (name, data)) = Some ?text"
    using htext by (rule decode_encode_utf8)
  have fields: "rsplit [d] 2 ?text = [name, show_nat (length data), sha256 data]"
    using dz dh by (rule rsplit_header)
  then have fields': "rsplit [d] 2 (name @ d # show_nat (length data) @ d # sha256 data)
                        = [name, show_nat (length data), sha256 data]"
    by simp
  have size: "py_int (show_nat (length data)) = Some (int (length data))"
    using len by (rule py_int_show_nat)
  have slice: "slice_to (int (length data)) data = data" by (simp add: slice_to_def)
  show ?thesis
    by (simp add: parse_part_def cut dec fields' size slice)
qed

lemma chunk_free_of_pattern:
  assumes fr: "framing_ok sentinel d" and pat: "encode Utf8 (sentinel @ [d]) = Inr pat"
    and ok: "entry_ok pat d (name, data)"
  shows "\<not> sublist pat (chunk d (name, data) @ butlast pat)"
proof -
  from fr have d: "d < 128" "\<not> is_hex d" "d \<noteq> 0x0A" "d \<notin> set sentinel" "0x0A \<notin> set sentinel"
    and nd: "\<exists>c \<in> set sentinel. \<not> is_digit c"
    by (simp_all add: framing_ok_def)
  from pat obtain s where s: "encode Utf8 sentinel = Inr s" and p: "pat = s @ [char_of d]"
    using d(1) by (auto dest!: encode_append_InrD simp: encode_cp_def utf8_cp_def)
  from ok obtain encoded where enc: "encode Utf8 name = Inr encoded"
    and name: "\<not> sublist pat (encoded @ [char_of d])"
    by (auto simp: entry_ok_def split: sum.splits)
  from ok have payload: "\<not> sublist pat data" by (simp add: entry_ok_def)
  have ten: "char_of (10::nat) = CHR 0x0A" by (simp add: char_of_eq_iff)
  have 1: "char_of d \<notin> set s"
    using encode_utf8_ascii_mem [OF s d(1)] d(4) by simp
  have 2: "CHR 0x0A \<notin> set s"
    using encode_utf8_ascii_mem [OF s, of 10] d(5) ten by simp
  have 3: "CHR 0x0A \<noteq> char_of d"
  proof
    assume "CHR 0x0A = char_of d"
    then have "(of_char (CHR 0x0A) :: nat) = of_char (char_of d)" by simp
    with d(1) have "10 = d" by simp
    with d(3) show False by simp
  qed
  have small: "c < 256" if "is_hex c" for c using that by (auto simp: is_hex_def)
  have 4: "char_of d \<notin> set (map char_of (show_nat (length data)))"
  proof
    assume "char_of d \<in> set (map char_of (show_nat (length data)))"
    then obtain c where c: "c \<in> set (show_nat (length data))" "char_of d = char_of c" by auto
    then have "is_hex c" by (auto dest!: show_nat_digits is_digit_hex)
    moreover with c(2) d(1) have "d = c" using small [of c] by simp
    ultimately show False using d(2) by simp
  qed
  have 5: "\<not> set s \<subseteq> set (map char_of (show_nat (length data)))"
  proof
    assume sub: "set s \<subseteq> set (map char_of (show_nat (length data)))"
    from nd obtain c where "c \<in> set sentinel" "\<not> is_digit c" by blast
    with s obtain b where b: "b \<in> set s" "\<not> is_digit (of_char b)"
      using encode_utf8_nondigit by blast
    with sub obtain z where z: "z \<in> set (show_nat (length data))" "b = char_of z" by auto
    then have "is_digit z" by (auto dest: show_nat_digits)
    moreover then have "of_char (char_of z) = z" by (simp add: is_digit_def)
    ultimately show False using b(2) z(2) by simp
  qed
  have 6: "char_of d \<notin> set (map char_of (sha256 data))"
  proof
    assume "char_of d \<in> set (map char_of (sha256 data))"
    then obtain c where c: "c \<in> set (sha256 data)" "char_of d = char_of c" by auto
    then have "is_hex c" by (auto dest!: sha256_hex)
    moreover with c(2) d(1) have "d = c" using small [of c] by simp
    ultimately show False using d(2) by simp
  qed
  from name payload
  have "\<not> sublist (s @ [char_of d])
          ((encoded @ [char_of d] @ map char_of (show_nat (length data)) @ [char_of d]
              @ map char_of (sha256 data) @ [CHR 0x0A] @ data) @ s)"
    unfolding p by (intro no_pattern_in_chunk 1 2 3 4 5 6)
  with enc show ?thesis
    by (simp add: p chunk_def header_bytes_def bytes_of_def)
qed

lemma split_chunks_loop:
  assumes fr: "framing_ok sentinel d" and pat: "encode Utf8 (sentinel @ [d]) = Inr pat"
    and ok: "\<forall>e \<in> set entries. entry_ok pat d e"
  shows "split Utf8 os join sentinel [d] (concat (map ((@) pat) (map (chunk d) entries))) files
           = split_loop os join [d] files Map.empty (map (chunk d) entries)
         \<and> map (parse_part [d]) (map (chunk d) entries)
             = map Inr (map (\<lambda>(name, data). (strip name, data)) entries)"
proof -
  have ne: "pat \<noteq> []" using fr pat by (rule pattern_nonempty)
  have "\<forall>c \<in> set (map (chunk d) entries). \<not> sublist pat (c @ butlast pat)"
    using ok chunk_free_of_pattern [OF fr pat] by auto
  with ne have parts: "split_all pat (concat (map ((@) pat) (map (chunk d) entries)))
                         = [] # map (chunk d) entries"
    by (rule split_all_chunks)
  have parsed: "map (parse_part [d]) (map (chunk d) entries)
                  = map Inr (map (\<lambda>(name, data). (strip name, data)) entries)"
    using ok parse_chunk [OF fr] by auto
  from split_parts [OF pat ne parts, of os join files] parsed
  show ?thesis by simp
qed

lemma split_chunks:
  assumes fr: "framing_ok sentinel d" and pat: "encode Utf8 (sentinel @ [d]) = Inr pat"
    and ok: "\<forall>e \<in> set entries. entry_ok pat d e"
    and wr: "written os join files (map (\<lambda>(name, data). (strip name, data)) entries)"
  shows "split Utf8 os join sentinel [d] (concat (map ((@) pat) (map (chunk d) entries))) files
           = (write_all join files (map (\<lambda>(name, data). (strip name, data)) entries),
              Inr (bind_all join Map.empty (map (\<lambda>(name, data). (strip name, data)) entries)))"
proof -
  have ne: "pat \<noteq> []" using fr pat by (rule pattern_nonempty)
  have "\<forall>c \<in> set (map (chunk d) entries). \<not> sublist pat (c @ butlast pat)"
    using ok chunk_free_of_pattern [OF fr pat] by auto
  with ne have parts: "split_all pat (concat (map ((@) pat) (map (chunk d) entries)))
                         = [] # map (chunk d) entries"
    by (rule split_all_chunks)
  have parsed: "map (parse_part [d]) (map (chunk d) entries)
                  = map Inr (map (\<lambda>(name, data). (strip name, data)) entries)"
    using ok parse_chunk [OF fr] by auto
  from split_loop_append [OF parsed wr, of Map.empty "[]"]
    split_parts [OF pat ne parts, of os join files]
  show ?thesis by simp
qed

lemma split_chunks_refused:
  assumes fr: "framing_ok sentinel d" and pat: "encode Utf8 (sentinel @ [d]) = Inr pat"
    and ok: "\<forall>e \<in> set entries. entry_ok pat d e"
    and wr: "refused os join files (map (\<lambda>(name, data). (strip name, data)) entries)"
  shows "\<exists>e. snd (split Utf8 os join sentinel [d]
                    (concat (map ((@) pat) (map (chunk d) entries))) files) = Inl e"
proof -
  note l = split_chunks_loop [OF fr pat ok, of os join files]
  from l have parsed: "map (parse_part [d]) (map (chunk d) entries)
                  = map Inr (map (\<lambda>(name, data). (strip name, data)) entries)"
    by (rule conjunct2)
  from split_loop_refused [OF parsed wr, of Map.empty "[]"] l
  show ?thesis by simp
qed

lemma strip_all_same:
  "\<forall>(name, data) \<in> set es. strip name = name \<Longrightarrow>
     map (\<lambda>(name, data). (strip name, data)) es = es"
  by (induction es) auto

section \<open>Concrete inputs\<close>

lemma encode_default_pattern:
  "encode Utf8 (ascii ''--STARTFILE--'' @ ascii '':'') = Inr ''--STARTFILE--:''"
  by (simp add: text_eval)

lemma encode_default_pattern': "encode Utf8 (ascii ''--STARTFILE--'' @ [58]) = Inr ''--STARTFILE--:''"
  by (simp add: text_eval)

lemma framing_default: "framing_ok (ascii ''--STARTFILE--'') 58"
  by (simp add: framing_ok_def is_hex_def is_digit_def ascii_def)

lemma split_all_two_parts:
  "split_all ''--STARTFILE--:''
     (''--STARTFILE--:a.txt:5:2cf24dba5fb0a30e26e83b2ac5b9e29e1b161e5c1fa7425e73043362938b9824\<newline>hello''
        @ ''--STARTFILE--:'' @ rest)
   = [] # ''a.txt:5:2cf24dba5fb0a30e26e83b2ac5b9e29e1b161e5c1fa7425e73043362938b9824\<newline>hello''
        # split_all ''--STARTFILE--:'' rest"
proof -
  have "split_all ''--STARTFILE--:''
          ([] @ ''--STARTFILE--:'' @
             ''a.txt:5:2cf24dba5fb0a30e26e83b2ac5b9e29e1b161e5c1fa7425e73043362938b9824\<newline>hello''
               @ ''--STARTFILE--:'' @ rest)
        = [] # split_all ''--STARTFILE--:''
            (''a.txt:5:2cf24dba5fb0a30e26e83b2ac5b9e29e1b161e5c1fa7425e73043362938b9824\<newline>hello''
               @ ''--STARTFILE--:'' @ rest)"
    by (rule split_all_first) (simp_all add: sublist_Cons_right)
  moreover have "split_all ''--STARTFILE--:''
            (''a.txt:5:2cf24dba5fb0a30e26e83b2ac5b9e29e1b161e5c1fa7425e73043362938b9824\<newline>hello''
               @ ''--STARTFILE--:'' @ rest)
        = ''a.txt:5:2cf24dba5fb0a30e26e83b2ac5b9e29e1b161e5c1fa7425e73043362938b9824\<newline>hello''
            # split_all ''--STARTFILE--:'' rest"
    by (rule split_all_first) (simp_all add: sublist_Cons_right)
  ultimately show ?thesis by simp
qed

lemma parse_part_hello:
  "parse_part (ascii '':'')
     ''a.txt:5:2cf24dba5fb0a30e26e83b2ac5b9e29e1b161e5c1fa7425e73043362938b9824\<newline>hello''
   = Inr (ascii ''a.txt'', ''hello'')"
  by (simp add: parse_part_def sha256_hello text_eval)

text \<open>
  An archive with an entry of empty name, and one with a NUL character in a name: the
  header is accepted and the file system refuses the write.
\<close>

lemma split_refused_by_out_dir:
  "split Utf8 out_dir (\<lambda>name. ascii ''out/'' @ name) (ascii ''--STARTFILE--'') (ascii '':'')
     ''--STARTFILE--::5:2cf24dba5fb0a30e26e83b2ac5b9e29e1b161e5c1fa7425e73043362938b9824\<newline>hello''
     Map.empty
   = (Map.empty, Inl (OSError 21))"
  "split Utf8 out_dir (\<lambda>name. ascii ''out/'' @ name) (ascii ''--STARTFILE--'') (ascii '':'')
     (''--STARTFILE--:x'' @ CHR 0x00
        # ''y:5:2cf24dba5fb0a30e26e83b2ac5b9e29e1b161e5c1fa7425e73043362938b9824\<newline>hello'')
     Map.empty
   = (Map.empty, Inl EmbeddedNull)"
  by (simp_all add: split_def parse_part_def sha256_hello text_eval out_dir_def)

section \<open>The claims\<close>

text \<open>
  C1. As stated the claim fails: \<open>split\<close> strips white space from both ends of every
  name, and a newline in a name ends the header early. What holds: with UTF-8, a
  delimiter and a sentinel that satisfy \<open>framing_ok\<close>, the sentinel being encodable,
  existing entries that satisfy \<open>entry_ok\<close> (the payload may contain the delimiter, not
  the pattern), names that are distinct and have no white space at either end, and
  distinct output paths, \<open>merge\<close> raises nothing; and \<open>split\<close> of its archive into an
  empty directory writes exactly the original contents under the original names and
  returns exactly those names, provided the file system refuses none of the writes and
  each of them changes the file at its own path only. When it refuses one, \<open>split\<close>
  raises an error.
\<close>

theorem merge_split_roundtrip:
  assumes "framing_ok sentinel d" "encode Utf8 (sentinel @ [d]) = Inr pat"
    and "\<forall>e \<in> set (existing read inputs). entry_ok pat d e"
    and "\<forall>(name, data) \<in> set (existing read inputs). strip name = name"
    and "distinct (map fst (existing read inputs))"
    and "inj_on join (fst ` set (existing read inputs))"
  shows "snd (merge Utf8 read sentinel [d] inputs) = None
         \<and> (written os join Map.empty (existing read inputs) \<longrightarrow>
              split Utf8 os join sentinel [d] (fst (merge Utf8 read sentinel [d] inputs)) Map.empty
                = (map_of (map (\<lambda>(name, data). (join name, data)) (existing read inputs)),
                   Inr (map_of (map (\<lambda>(name, data). (name, join name)) (existing read inputs)))))
         \<and> (refused os join Map.empty (existing read inputs) \<longrightarrow>
              (\<exists>e. snd (split Utf8 os join sentinel [d]
                           (fst (merge Utf8 read sentinel [d] inputs)) Map.empty) = Inl e))"
proof -
  let ?es = "existing read inputs"
  have m: "merge Utf8 read sentinel [d] inputs
             = (concat (map ((@) pat) (map (chunk d) ?es)), None)"
    using merge_utf8 [OF assms(1-3)] by (simp only: merge_existing [of Utf8 read])
  have same: "map (\<lambda>(name, data). (strip name, data)) ?es = ?es"
    using assms(4) by (rule strip_all_same)
  have eq: "map (\<lambda>(name, data). join name) ?es = map join (map fst ?es)"
    by (simp add: case_prod_unfold)
  have "distinct (map join (map fst ?es))"
    using assms(5,6) by (simp only: distinct_map set_map)
  then have dj: "distinct (map (\<lambda>(name, data). join name) ?es)"
    by (simp only: eq)
  have ok: "split Utf8 os join sentinel [d] (fst (merge Utf8 read sentinel [d] inputs)) Map.empty
              = (map_of (map (\<lambda>(name, data). (join name, data)) ?es),
                 Inr (map_of (map (\<lambda>(name, data). (name, join name)) ?es)))"
    if wr: "written os join Map.empty ?es"
  proof -
    from wr same
    have "written os join Map.empty (map (\<lambda>(name, data). (strip name, data)) ?es)"
      by simp
    from split_chunks [OF assms(1-3) this] same
    have "split Utf8 os join sentinel [d] (concat (map ((@) pat) (map (chunk d) ?es))) Map.empty
            = (write_all join Map.empty ?es, Inr (bind_all join Map.empty ?es))"
      by simp
    with m show ?thesis
      by (simp add: write_all_distinct [OF dj] bind_all_distinct [OF assms(5)])
  qed
  have refused: "\<exists>e. snd (split Utf8 os join sentinel [d]
                           (fst (merge Utf8 read sentinel [d] inputs)) Map.empty) = Inl e"
    if wr: "refused os join Map.empty ?es"
  proof -
    from wr same
    have "refused os join Map.empty (map (\<lambda>(name, data). (strip name, data)) ?es)"
      by simp
    from split_chunks_refused [OF assms(1-3) this] m show ?thesis by simp
  qed
  from m ok refused show ?thesis by simp
qed

theorem merge_split_roundtrip_witness:
  "framing_ok (ascii ''--STARTFILE--'') 58
   \<and> encode Utf8 (ascii ''--STARTFILE--'' @ [58]) = Inr ''--STARTFILE--:''
   \<and> existing (\<lambda>p. if p = (0::nat) then Some ''he:llo''
                    else if p = 1 then Some [CHR 0x00, CHR 0x01, CHR 0x02] else None)
        [(ascii ''a.txt'', 0), (ascii ''gone'', 7), (ascii ''sub/b.bin'', 1)]
       = [(ascii ''a.txt'', ''he:llo''), (ascii ''sub/b.bin'', [CHR 0x00, CHR 0x01, CHR 0x02])]
   \<and> entry_ok ''--STARTFILE--:'' 58 (ascii ''a.txt'', ''he:llo'')
   \<and> entry_ok ''--STARTFILE--:'' 58 (ascii ''sub/b.bin'', [CHR 0x00, CHR 0x01, CHR 0x02])
   \<and> strip (ascii ''a.txt'') = ascii ''a.txt''
   \<and> strip (ascii ''sub/b.bin'') = ascii ''sub/b.bin''
   \<and> distinct [ascii ''a.txt'', ascii ''sub/b.bin'']
   \<and> inj_on (\<lambda>name. ascii ''out/'' @ name) {ascii ''a.txt'', ascii ''sub/b.bin''}
   \<and> written out_dir (\<lambda>name. ascii ''out/'' @ name) Map.empty
        [(ascii ''a.txt'', ''he:llo''), (ascii ''sub/b.bin'', [CHR 0x00, CHR 0x01, CHR 0x02])]
   \<and> snd (merge Utf8 (\<lambda>p. if p = (0::nat) then Some ''he:llo''
                           else if p = 1 then Some [CHR 0x00, CHR 0x01, CHR 0x02] else None)
            (ascii ''--STARTFILE--'') [58]
            [(ascii ''a.txt'', 0), (ascii ''gone'', 7), (ascii ''sub/b.bin'', 1)]) = None
   \<and> split Utf8 out_dir (\<lambda>name. ascii ''out/'' @ name) (ascii ''--STARTFILE--'') [58]
        (fst (merge Utf8 (\<lambda>p. if p = (0::nat) then Some ''he:llo''
                           else if p = 1 then Some [CHR 0x00, CHR 0x01, CHR 0x02] else None)
            (ascii ''--STARTFILE--'') [58]
            [(ascii ''a.txt'', 0), (ascii ''gone'', 7), (ascii ''sub/b.bin'', 1)]))
        Map.empty
      = (map_of [(ascii ''out/'' @ ascii ''a.txt'', ''he:llo''),
                 (ascii ''out/'' @ ascii ''sub/b.bin'', [CHR 0x00, CHR 0x01, CHR 0x02])],
         Inr (map_of [(ascii ''a.txt'', ascii ''out/'' @ ascii ''a.txt''),
                      (ascii ''sub/b.bin'', ascii ''out/'' @ ascii ''sub/b.bin'')]))
   \<and> existing (\<lambda>p. Some ''hello'') [([120, 0, 121], 0::nat)] = [([120, 0, 121], ''hello'')]
   \<and> entry_ok ''--STARTFILE--:'' 58 ([120, 0, 121], ''hello'')
   \<and> strip [120, 0, 121] = [120, 0, 121]
   \<and> refused out_dir (\<lambda>name. ascii ''out/'' @ name) Map.empty [([120, 0, 121], ''hello'')]
   \<and> (\<exists>e. snd (split Utf8 out_dir (\<lambda>name. ascii ''out/'' @ name) (ascii ''--STARTFILE--'') [58]
                  (fst (merge Utf8 (\<lambda>p. Some ''hello'') (ascii ''--STARTFILE--'') [58]
                          [([120, 0, 121], 0::nat)]))
                  Map.empty) = Inl e)"
proof -
  let ?read = "\<lambda>p. if p = (0::nat) then Some ''he:llo''
                    else if p = 1 then Some [CHR 0x00, CHR 0x01, CHR 0x02] else None"
  let ?inputs = "[(ascii ''a.txt'', 0::nat), (ascii ''gone'', 7), (ascii ''sub/b.bin'', 1)]"
  let ?join = "\<lambda>name. ascii ''out/'' @ name"
  have h1: "framing_ok (ascii ''--STARTFILE--'') 58" by (rule framing_default)
  have h2: "encode Utf8 (ascii ''--STARTFILE--'' @ [58]) = Inr ''--STARTFILE--:''"
    by (rule encode_default_pattern')
  have ex: "existing ?read ?inputs
              = [(ascii ''a.txt'', ''he:llo''), (ascii ''sub/b.bin'', [CHR 0x00, CHR 0x01, CHR 0x02])]"
    by simp
  have e1: "entry_ok ''--STARTFILE--:'' 58 (ascii ''a.txt'', ''he:llo'')"
    by (simp add: entry_ok_def text_eval sublist_Cons_right)
  have e2: "entry_ok ''--STARTFILE--:'' 58 (ascii ''sub/b.bin'', [CHR 0x00, CHR 0x01, CHR 0x02])"
    by (simp add: entry_ok_def text_eval sublist_Cons_right)
  have s1: "strip (ascii ''a.txt'') = ascii ''a.txt''" by (simp add: text_eval)
  have s2: "strip (ascii ''sub/b.bin'') = ascii ''sub/b.bin''" by (simp add: text_eval)
  have di: "distinct [ascii ''a.txt'', ascii ''sub/b.bin'']" by (simp add: ascii_def)
  have inj: "inj_on ?join {ascii ''a.txt'', ascii ''sub/b.bin''}"
    by (simp add: inj_on_def)
  have wr: "written out_dir ?join Map.empty
        [(ascii ''a.txt'', ''he:llo''), (ascii ''sub/b.bin'', [CHR 0x00, CHR 0x01, CHR 0x02])]"
    by (simp add: out_dir_def ascii_def)
  have h3: "\<forall>e \<in> set (existing ?read ?inputs). entry_ok ''--STARTFILE--:'' 58 e"
    using e1 e2 by (simp only: ex) simp
  have h4: "\<forall>(name, data) \<in> set (existing ?read ?inputs). strip name = name"
    using s1 s2 by (simp only: ex) simp
  have h5: "distinct (map fst (existing ?read ?inputs))"
    using di by (simp only: ex) simp
  have h6: "inj_on ?join (fst ` set (existing ?read ?inputs))"
    using inj by (simp only: ex) simp
  have h7: "written out_dir ?join Map.empty (existing ?read ?inputs)"
    using wr by (simp only: ex)
  note r = merge_split_roundtrip [OF h1 h2 h3 h4 h5 h6, of out_dir]
  from r have c1: "snd (merge Utf8 ?read (ascii ''--STARTFILE--'') [58] ?inputs) = None"
    by (rule conjunct1)
  from r h7 have "split Utf8 out_dir ?join (ascii ''--STARTFILE--'') [58]
        (fst (merge Utf8 ?read (ascii ''--STARTFILE--'') [58] ?inputs)) Map.empty
      = (map_of (map (\<lambda>(name, data). (ascii ''out/'' @ name, data)) (existing ?read ?inputs)),
         Inr (map_of (map (\<lambda>(name, data). (name, ascii ''out/'' @ name)) (existing ?read ?inputs))))"
    by blast
  then have c2: "split Utf8 out_dir ?join (ascii ''--STARTFILE--'') [58]
        (fst (merge Utf8 ?read (ascii ''--STARTFILE--'') [58] ?inputs)) Map.empty
      = (map_of [(ascii ''out/'' @ ascii ''a.txt'', ''he:llo''),
                 (ascii ''out/'' @ ascii ''sub/b.bin'', [CHR 0x00, CHR 0x01, CHR 0x02])],
         Inr (map_of [(ascii ''a.txt'', ascii ''out/'' @ ascii ''a.txt''),
                      (ascii ''sub/b.bin'', ascii ''out/'' @ ascii ''sub/b.bin'')]))"
    by (simp only: ex list.map prod.case)
  let ?read' = "\<lambda>p::nat. Some ''hello''"
  let ?inputs' = "[([120, 0, 121], 0::nat)]"
  have ex': "existing ?read' ?inputs' = [([120, 0, 121], ''hello'')]" by simp
  have e3: "entry_ok ''--STARTFILE--:'' 58 ([120, 0, 121], ''hello'')"
    by (simp add: entry_ok_def text_eval sublist_Cons_right)
  have s3: "strip [120, 0, 121] = [120, 0, 121]" by (simp add: text_eval)
  have nw: "refused out_dir ?join Map.empty [([120, 0, 121], ''hello'')]"
    by (simp add: out_dir_def ascii_def)
  have g3: "\<forall>e \<in> set (existing ?read' ?inputs'). entry_ok ''--STARTFILE--:'' 58 e"
    using e3 by (simp only: ex') simp
  have g4: "\<forall>(name, data) \<in> set (existing ?read' ?inputs'). strip name = name"
    using s3 by (simp only: ex') simp
  have g5: "distinct (map fst (existing ?read' ?inputs'))"
    by (simp only: ex') simp
  have g6: "inj_on ?join (fst ` set (existing ?read' ?inputs'))"
    by (simp only: ex') simp
  have g7: "refused out_dir ?join Map.empty (existing ?read' ?inputs')"
    unfolding ex' by (rule nw)
  from merge_split_roundtrip [OF h1 h2 g3 g4 g5 g6, of out_dir] g7
  have c3: "\<exists>e. snd (split Utf8 out_dir ?join (ascii ''--STARTFILE--'') [58]
                  (fst (merge Utf8 ?read' (ascii ''--STARTFILE--'') [58] ?inputs'))
                  Map.empty) = Inl e"
    by blast
  from h1 h2 ex e1 e2 s1 s2 di inj wr c1 c2 ex' e3 s3 nw c3 show ?thesis by blast
qed

text \<open>
  The inputs at which C1 fails: the name \<^verbatim>\<open>" a.txt"\<close> comes back as \<^verbatim>\<open>"a.txt"\<close>, and
  the archive written for the name \<^verbatim>\<open>"a\nb"\<close> is refused with an invalid header.
\<close>

theorem merge_split_roundtrip_counterexample:
  "merge Utf8 (\<lambda>p. Some ''hello'') (ascii ''--STARTFILE--'') (ascii '':'')
     [(ascii '' a.txt'', 0::nat)]
   = (''--STARTFILE--: a.txt:5:2cf24dba5fb0a30e26e83b2ac5b9e29e1b161e5c1fa7425e73043362938b9824\<newline>hello'',
      None)
   \<and> split Utf8 out_dir (\<lambda>name. ascii ''out/'' @ name) (ascii ''--STARTFILE--'') (ascii '':'')
       ''--STARTFILE--: a.txt:5:2cf24dba5fb0a30e26e83b2ac5b9e29e1b161e5c1fa7425e73043362938b9824\<newline>hello''
       Map.empty
     = ([ascii ''out/a.txt'' \<mapsto> ''hello''], Inr [ascii ''a.txt'' \<mapsto> ascii ''out/a.txt''])
   \<and> ascii ''a.txt'' \<noteq> ascii '' a.txt''
   \<and> merge Utf8 (\<lambda>p. Some ''hello'') (ascii ''--STARTFILE--'') (ascii '':'')
       [(ascii ''a\<newline>b'', 0::nat)]
     = (''--STARTFILE--:a\<newline>b:5:2cf24dba5fb0a30e26e83b2ac5b9e29e1b161e5c1fa7425e73043362938b9824\<newline>hello'',
        None)
   \<and> split Utf8 out_dir (\<lambda>name. ascii ''out/'' @ name) (ascii ''--STARTFILE--'') (ascii '':'')
       ''--STARTFILE--:a\<newline>b:5:2cf24dba5fb0a30e26e83b2ac5b9e29e1b161e5c1fa7425e73043362938b9824\<newline>hello''
       Map.empty
     = (Map.empty, Inl (InvalidHeader ''a''))"
  by (simp add: merge_def split_def parse_part_def sha256_hello text_eval out_dir_def)

text \<open>
  C2. As stated the claim fails: an existing entry whose header line cannot be encoded
  gets no record, and neither does any entry after it. What holds: for each existing
  entry in iteration order, up to the first one whose header line the codec cannot
  encode, \<open>merge\<close> writes the encoded line
  \<^verbatim>\<open><sentinel><delimiter><name><delimiter><size><delimiter><checksum>\n\<close>
  followed at once by the payload, and nothing else. It raises nothing when every header
  line can be encoded, and \<^verbatim>\<open>UnicodeEncodeError\<close> otherwise. For \<^verbatim>\<open>a.txt\<close> holding
  \<^verbatim>\<open>hello\<close> and \<^verbatim>\<open>b.bin\<close> holding the bytes 0, 1, 2 the archive is the byte string of
  the specification.
\<close>

theorem merge_archive_format:
  "merge encoding read sentinel delimiter inputs
     = (concat
          (map (\<lambda>(name, data).
                  bytes_of
                    (encode encoding
                       (sentinel @ delimiter @ name @ delimiter @ show_nat (length data)
                          @ delimiter @ sha256 data @ [0x0A]))
                  @ data)
             (takeWhile (encodable encoding sentinel delimiter) (existing read inputs))),
        if list_all (encodable encoding sentinel delimiter) (existing read inputs) then None
        else Some UnicodeEncodeError)
   \<and> (list_all (encodable encoding sentinel delimiter) (existing read inputs) \<longrightarrow>
        takeWhile (encodable encoding sentinel delimiter) (existing read inputs)
          = existing read inputs)
   \<and> merge Utf8
        (\<lambda>p. if p = (0::nat) then Some ''hello''
              else if p = 1 then Some [CHR 0x00, CHR 0x01, CHR 0x02] else None)
        (ascii ''--STARTFILE--'') (ascii '':'') [(ascii ''a.txt'', 0), (ascii ''b.bin'', 1)]
       = (''--STARTFILE--:a.txt:5:2cf24dba5fb0a30e26e83b2ac5b9e29e1b161e5c1fa7425e73043362938b9824\<newline>hello''
            @ ''--STARTFILE--:b.bin:3:ae4b3280e56e2faf83f414a6e3dabe9d5fbe18976544c05fed121accb85b53fc\<newline>''
            @ [CHR 0x00, CHR 0x01, CHR 0x02],
          None)"
proof (intro conjI impI)
  have "record_of encoding sentinel delimiter
          = (\<lambda>(name, data).
                  bytes_of
                    (encode encoding
                       (sentinel @ delimiter @ name @ delimiter @ show_nat (length data)
                          @ delimiter @ sha256 data @ [0x0A]))
                  @ data)"
    by (rule ext) (simp add: record_of_def header_line_def case_prod_unfold)
  with merge_records [of encoding read sentinel delimiter inputs]
  show "merge encoding read sentinel delimiter inputs
     = (concat
          (map (\<lambda>(name, data).
                  bytes_of
                    (encode encoding
                       (sentinel @ delimiter @ name @ delimiter @ show_nat (length data)
                          @ delimiter @ sha256 data @ [0x0A]))
                  @ data)
             (takeWhile (encodable encoding sentinel delimiter) (existing read inputs))),
        if list_all (encodable encoding sentinel delimiter) (existing read inputs) then None
        else Some UnicodeEncodeError)"
    by (simp only:)
next
  assume "list_all (encodable encoding sentinel delimiter) (existing read inputs)"
  then show "takeWhile (encodable encoding sentinel delimiter) (existing read inputs)
          = existing read inputs"
    by (rule takeWhile_all)
next
  show "merge Utf8
        (\<lambda>p. if p = (0::nat) then Some ''hello''
              else if p = 1 then Some [CHR 0x00, CHR 0x01, CHR 0x02] else None)
        (ascii ''--STARTFILE--'') (ascii '':'') [(ascii ''a.txt'', 0), (ascii ''b.bin'', 1)]
       = (''--STARTFILE--:a.txt:5:2cf24dba5fb0a30e26e83b2ac5b9e29e1b161e5c1fa7425e73043362938b9824\<newline>hello''
            @ ''--STARTFILE--:b.bin:3:ae4b3280e56e2faf83f414a6e3dabe9d5fbe18976544c05fed121accb85b53fc\<newline>''
            @ [CHR 0x00, CHR 0x01, CHR 0x02],
          None)"
    by (simp add: merge_def sha256_hello sha256_bin text_eval)
qed

theorem merge_archive_format_witness:
  "existing (\<lambda>p. if p = (0::nat) then Some ''hello'' else None)
       [(ascii ''a.txt'', 0), (ascii ''gone'', 1)] = [(ascii ''a.txt'', ''hello'')]
   \<and> list_all (encodable Utf8 (ascii ''--STARTFILE--'') (ascii '':''))
        (existing (\<lambda>p. if p = (0::nat) then Some ''hello'' else None)
           [(ascii ''a.txt'', 0), (ascii ''gone'', 1)])
   \<and> takeWhile (encodable Utf8 (ascii ''--STARTFILE--'') (ascii '':''))
        (existing (\<lambda>p. if p = (0::nat) then Some ''hello'' else None)
           [(ascii ''a.txt'', 0), (ascii ''gone'', 1)])
       = [(ascii ''a.txt'', ''hello'')]
   \<and> merge Utf8 (\<lambda>p. if p = (0::nat) then Some ''hello'' else None)
        (ascii ''--STARTFILE--'') (ascii '':'') [(ascii ''a.txt'', 0), (ascii ''gone'', 1)]
       = (''--STARTFILE--:a.txt:5:2cf24dba5fb0a30e26e83b2ac5b9e29e1b161e5c1fa7425e73043362938b9824\<newline>''
            @ ''hello'', None)"
proof -
  let ?read = "\<lambda>p. if p = (0::nat) then Some ''hello'' else None"
  let ?inputs = "[(ascii ''a.txt'', 0::nat), (ascii ''gone'', 1)]"
  have ex: "existing ?read ?inputs = [(ascii ''a.txt'', ''hello'')]" by simp
  have line: "encode Utf8
                (ascii ''--STARTFILE--'' @ ascii '':'' @ ascii ''a.txt'' @ ascii '':''
                   @ show_nat (length ''hello'') @ ascii '':'' @ sha256 ''hello'' @ [0x0A])
              = Inr ''--STARTFILE--:a.txt:5:2cf24dba5fb0a30e26e83b2ac5b9e29e1b161e5c1fa7425e73043362938b9824\<newline>''"
    by (simp add: sha256_hello text_eval)
  then have en: "encodable Utf8 (ascii ''--STARTFILE--'') (ascii '':'') (ascii ''a.txt'', ''hello'')"
    by (simp add: encodable_def header_line_def)
  then have all: "list_all (encodable Utf8 (ascii ''--STARTFILE--'') (ascii '':''))
                    (existing ?read ?inputs)"
    unfolding ex by simp
  note r = merge_archive_format [of Utf8 ?read "ascii ''--STARTFILE--''" "ascii '':''" ?inputs]
  from r all have tw: "takeWhile (encodable Utf8 (ascii ''--STARTFILE--'') (ascii '':''))
                         (existing ?read ?inputs) = existing ?read ?inputs"
    by blast
  from r have "merge Utf8 ?read (ascii ''--STARTFILE--'') (ascii '':'') ?inputs
     = (concat
          (map (\<lambda>(name, data).
                  bytes_of
                    (encode Utf8
                       (ascii ''--STARTFILE--'' @ ascii '':'' @ name @ ascii '':''
                          @ show_nat (length data) @ ascii '':'' @ sha256 data @ [0x0A]))
                  @ data)
             (takeWhile (encodable Utf8 (ascii ''--STARTFILE--'') (ascii '':''))
                (existing ?read ?inputs))),
        if list_all (encodable Utf8 (ascii ''--STARTFILE--'') (ascii '':''))
             (existing ?read ?inputs) then None
        else Some UnicodeEncodeError)"
    by (rule conjunct1)
  with all tw have "merge Utf8 ?read (ascii ''--STARTFILE--'') (ascii '':'') ?inputs
     = (concat
          (map (\<lambda>(name, data).
                  bytes_of
                    (encode Utf8
                       (ascii ''--STARTFILE--'' @ ascii '':'' @ name @ ascii '':''
                          @ show_nat (length data) @ ascii '':'' @ sha256 data @ [0x0A]))
                  @ data)
             (existing ?read ?inputs)),
        None)"
    by (simp only: if_True)
  then have m: "merge Utf8 ?read (ascii ''--STARTFILE--'') (ascii '':'') ?inputs
       = (''--STARTFILE--:a.txt:5:2cf24dba5fb0a30e26e83b2ac5b9e29e1b161e5c1fa7425e73043362938b9824\<newline>''
            @ ''hello'', None)"
    by (simp only: ex list.map prod.case line concat.simps bytes_of_def sum.case append_Nil2)
  from tw have tw': "takeWhile (encodable Utf8 (ascii ''--STARTFILE--'') (ascii '':''))
                       (existing ?read ?inputs) = [(ascii ''a.txt'', ''hello'')]"
    by (simp only: ex)
  from ex all tw' m show ?thesis by blast
qed

text \<open>
  The inputs at which C2 fails: three existing files, the name of the second with the
  lone surrogate U+DC80. The archive holds the record of the first file only;
  \<^verbatim>\<open>c.txt\<close>, which exists and whose header line can be encoded, has no record.
\<close>

theorem merge_archive_format_counterexample:
  "existing (\<lambda>p::nat. Some ''hello'')
       [(ascii ''a.txt'', 0), (0xDC80 # ascii ''.txt'', 1), (ascii ''c.txt'', 2)]
     = [(ascii ''a.txt'', ''hello''), (0xDC80 # ascii ''.txt'', ''hello''),
        (ascii ''c.txt'', ''hello'')]
   \<and> merge Utf8 (\<lambda>p::nat. Some ''hello'') (ascii ''--STARTFILE--'') (ascii '':'')
       [(ascii ''a.txt'', 0), (0xDC80 # ascii ''.txt'', 1), (ascii ''c.txt'', 2)]
     = (''--STARTFILE--:a.txt:5:2cf24dba5fb0a30e26e83b2ac5b9e29e1b161e5c1fa7425e73043362938b9824\<newline>hello'',
        Some UnicodeEncodeError)
   \<and> encode Utf8
        (ascii ''--STARTFILE--'' @ ascii '':'' @ ascii ''c.txt'' @ ascii '':''
           @ show_nat (length ''hello'') @ ascii '':'' @ sha256 ''hello'' @ [0x0A])
     = Inr ''--STARTFILE--:c.txt:5:2cf24dba5fb0a30e26e83b2ac5b9e29e1b161e5c1fa7425e73043362938b9824\<newline>''"
  by (simp add: merge_def sha256_hello text_eval)

text \<open>
  C3. When the parts before a part are accepted and written and that part's header parses, its size
  is read and the SHA-256 of the sliced payload differs from the checksum field, \<open>split\<close>
  stops with the error that carries the entry's name, the expected and the actual
  checksum. The output directory holds what the earlier entries wrote and nothing else:
  no file for this entry, none for a later one.
\<close>

theorem checksum_mismatch_is_fatal:
  assumes "encode encoding (sentinel @ delimiter) = Inr pat" "pat \<noteq> []"
    and "split_all pat content = lead # before @ part # after"
    and "map (parse_part delimiter) before = map Inr entries"
    and "written os join files entries"
    and "split_once [CHR 0x0A] part = Some (header, body)"
    and "delimiter \<noteq> []" "decode_utf8 header = Some decoded"
    and "rsplit delimiter 2 decoded = [filename, size_str, checksum]"
    and "py_int size_str = Some n"
    and "sha256 (slice_to n body) \<noteq> checksum"
  shows "split encoding os join sentinel delimiter content files
           = (write_all join files entries,
              Inl (ChecksumMismatch filename checksum (sha256 (slice_to n body))))"
proof -
  have "parse_part delimiter part
          = Inl (ChecksumMismatch filename checksum (sha256 (slice_to n body)))"
    using assms(6-11) by (rule parse_part_mismatch)
  then have "split_loop os join delimiter (write_all join files entries)
               (bind_all join Map.empty entries) (part # after)
             = (write_all join files entries,
                Inl (ChecksumMismatch filename checksum (sha256 (slice_to n body))))"
    by (rule split_loop_stops)
  with split_loop_append [OF assms(4,5), of Map.empty "part # after"]
    split_parts [OF assms(1-3), of os join files]
  show ?thesis by simp
qed

theorem checksum_mismatch_is_fatal_witness:
  "encode Utf8 (ascii ''--STARTFILE--'' @ ascii '':'') = Inr ''--STARTFILE--:''
   \<and> ''--STARTFILE--:'' \<noteq> []
   \<and> split_all ''--STARTFILE--:''
        (''--STARTFILE--:a.txt:5:2cf24dba5fb0a30e26e83b2ac5b9e29e1b161e5c1fa7425e73043362938b9824\<newline>hello''
           @ ''--STARTFILE--:b.bin:3:0000\<newline>'' @ [CHR 0x00, CHR 0x01, CHR 0x02])
       = [] # [''a.txt:5:2cf24dba5fb0a30e26e83b2ac5b9e29e1b161e5c1fa7425e73043362938b9824\<newline>hello'']
            @ (''b.bin:3:0000\<newline>'' @ [CHR 0x00, CHR 0x01, CHR 0x02]) # []
   \<and> map (parse_part (ascii '':''))
        [''a.txt:5:2cf24dba5fb0a30e26e83b2ac5b9e29e1b161e5c1fa7425e73043362938b9824\<newline>hello'']
       = map Inr [(ascii ''a.txt'', ''hello'')]
   \<and> written out_dir (\<lambda>name. ascii ''out/'' @ name) Map.empty [(ascii ''a.txt'', ''hello'')]
   \<and> split_once [CHR 0x0A] (''b.bin:3:0000\<newline>'' @ [CHR 0x00, CHR 0x01, CHR 0x02])
       = Some (''b.bin:3:0000'', [CHR 0x00, CHR 0x01, CHR 0x02])
   \<and> ascii '':'' \<noteq> []
   \<and> decode_utf8 ''b.bin:3:0000'' = Some (ascii ''b.bin:3:0000'')
   \<and> rsplit (ascii '':'') 2 (ascii ''b.bin:3:0000'') = [ascii ''b.bin'', ascii ''3'', ascii ''0000'']
   \<and> py_int (ascii ''3'') = Some 3
   \<and> sha256 (slice_to 3 [CHR 0x00, CHR 0x01, CHR 0x02]) \<noteq> ascii ''0000''
   \<and> split Utf8 out_dir (\<lambda>name. ascii ''out/'' @ name) (ascii ''--STARTFILE--'') (ascii '':'')
        (''--STARTFILE--:a.txt:5:2cf24dba5fb0a30e26e83b2ac5b9e29e1b161e5c1fa7425e73043362938b9824\<newline>hello''
           @ ''--STARTFILE--:b.bin:3:0000\<newline>'' @ [CHR 0x00, CHR 0x01, CHR 0x02])
        Map.empty
       = (write_all (\<lambda>name. ascii ''out/'' @ name) Map.empty [(ascii ''a.txt'', ''hello'')],
          Inl (ChecksumMismatch (ascii ''b.bin'') (ascii ''0000'')
                 (sha256 (slice_to 3 [CHR 0x00, CHR 0x01, CHR 0x02]))))"
proof -
  have h1: "encode Utf8 (ascii ''--STARTFILE--'' @ ascii '':'') = Inr ''--STARTFILE--:''"
    by (rule encode_default_pattern)
  have h2: "''--STARTFILE--:'' \<noteq> []" by simp
  have h3: "split_all ''--STARTFILE--:''
        (''--STARTFILE--:a.txt:5:2cf24dba5fb0a30e26e83b2ac5b9e29e1b161e5c1fa7425e73043362938b9824\<newline>hello''
           @ ''--STARTFILE--:b.bin:3:0000\<newline>'' @ [CHR 0x00, CHR 0x01, CHR 0x02])
       = [] # [''a.txt:5:2cf24dba5fb0a30e26e83b2ac5b9e29e1b161e5c1fa7425e73043362938b9824\<newline>hello'']
            @ (''b.bin:3:0000\<newline>'' @ [CHR 0x00, CHR 0x01, CHR 0x02]) # []"
    by (simp add: split_all.simps)
  have h4: "map (parse_part (ascii '':''))
        [''a.txt:5:2cf24dba5fb0a30e26e83b2ac5b9e29e1b161e5c1fa7425e73043362938b9824\<newline>hello'']
       = map Inr [(ascii ''a.txt'', ''hello'')]"
    by (simp add: parse_part_def sha256_hello text_eval)
  have hw: "written out_dir (\<lambda>name. ascii ''out/'' @ name) Map.empty [(ascii ''a.txt'', ''hello'')]"
    by (simp add: out_dir_def ascii_def)
  have h5: "split_once [CHR 0x0A] (''b.bin:3:0000\<newline>'' @ [CHR 0x00, CHR 0x01, CHR 0x02])
       = Some (''b.bin:3:0000'', [CHR 0x00, CHR 0x01, CHR 0x02])"
    by simp
  have h6: "ascii '':'' \<noteq> []" by (simp add: ascii_def)
  have h7: "decode_utf8 ''b.bin:3:0000'' = Some (ascii ''b.bin:3:0000'')"
    by (simp add: ascii_def)
  have h8: "rsplit (ascii '':'') 2 (ascii ''b.bin:3:0000'')
              = [ascii ''b.bin'', ascii ''3'', ascii ''0000'']"
    by (simp add: text_eval)
  have h9: "py_int (ascii ''3'') = Some 3" by (simp add: text_eval)
  have h10: "sha256 (slice_to 3 [CHR 0x00, CHR 0x01, CHR 0x02]) \<noteq> ascii ''0000''"
    by (simp add: slice_to_def sha256_bin) (simp add: ascii_def)
  from checksum_mismatch_is_fatal [OF h1 h2 h3 h4 hw h5 h6 h7 h8 h9 h10]
    h1 h2 h3 h4 hw h5 h6 h7 h8 h9 h10
  show ?thesis by blast
qed

text \<open>
  C4. As stated the claim fails for a name that contains the delimiter and has white
  space at an end, or contains the sentinel followed by the delimiter. What holds: a
  header text is split from the right into name, size and checksum whenever the delimiter
  occurs in neither the size nor the checksum, whatever the name contains. And with
  UTF-8, a delimiter and a sentinel that satisfy \<open>framing_ok\<close>, the sentinel being
  encodable, an existing entry that satisfies \<open>entry_ok\<close>, the delimiter allowed in its
  name, is written by \<open>merge\<close> and read back by \<open>split\<close> under its name with the white
  space at both ends removed, provided the file system refuses neither of the two calls
  that write it and the write changes the file at its path only. When it refuses one,
  \<open>split\<close> raises an error.
\<close>

theorem delimiter_in_name:
  "(d \<notin> set size_str \<and> d \<notin> set checksum \<longrightarrow>
      rsplit [d] 2 (name @ [d] @ size_str @ [d] @ checksum) = [name, size_str, checksum])
   \<and> (framing_ok sentinel d \<and> encode Utf8 (sentinel @ [d]) = Inr pat
        \<and> read input_filename = Some data \<and> entry_ok pat d (name, data) \<longrightarrow>
      snd (merge Utf8 read sentinel [d] [(name, input_filename)]) = None
      \<and> (mkdir_parent os files (join (strip name)) = None
          \<and> write_bytes os files (join (strip name)) data
              = (files(join (strip name) \<mapsto> data), None) \<longrightarrow>
          split Utf8 os join sentinel [d]
              (fst (merge Utf8 read sentinel [d] [(name, input_filename)])) files
            = (files(join (strip name) \<mapsto> data), Inr [strip name \<mapsto> join (strip name)]))
      \<and> (mkdir_parent os files (join (strip name)) \<noteq> None
          \<or> snd (write_bytes os files (join (strip name)) data) \<noteq> None \<longrightarrow>
          (\<exists>e. snd (split Utf8 os join sentinel [d]
                       (fst (merge Utf8 read sentinel [d] [(name, input_filename)])) files)
                 = Inl e)))"
proof (intro conjI impI)
  assume "d \<notin> set size_str \<and> d \<notin> set checksum"
  then show "rsplit [d] 2 (name @ [d] @ size_str @ [d] @ checksum) = [name, size_str, checksum]"
    using rsplit_header [of d size_str checksum name] by blast
next
  assume a: "framing_ok sentinel d \<and> encode Utf8 (sentinel @ [d]) = Inr pat
        \<and> read input_filename = Some data \<and> entry_ok pat d (name, data)"
  then have ex: "existing read [(name, input_filename)] = [(name, data)]" by simp
  from a have ok: "\<forall>e \<in> set [(name, data)]. entry_ok pat d e" by simp
  from a have fr: "framing_ok sentinel d" and pat: "encode Utf8 (sentinel @ [d]) = Inr pat"
    by simp_all
  have m: "merge Utf8 read sentinel [d] [(name, input_filename)]
             = (concat (map ((@) pat) (map (chunk d) [(name, data)])), None)"
    using merge_utf8 [OF fr pat ok] ex by (simp only: merge_existing [of Utf8 read])
  then show "snd (merge Utf8 read sentinel [d] [(name, input_filename)]) = None" by simp
  {
    assume "mkdir_parent os files (join (strip name)) = None
            \<and> write_bytes os files (join (strip name)) data
                = (files(join (strip name) \<mapsto> data), None)"
    then have "written os join files (map (\<lambda>(name, data). (strip name, data)) [(name, data)])"
      by simp
    from split_chunks [OF fr pat ok this] m
    show "split Utf8 os join sentinel [d]
              (fst (merge Utf8 read sentinel [d] [(name, input_filename)])) files
            = (files(join (strip name) \<mapsto> data), Inr [strip name \<mapsto> join (strip name)])"
      by (simp add: write_all_def bind_all_def)
  next
    assume "mkdir_parent os files (join (strip name)) \<noteq> None
            \<or> snd (write_bytes os files (join (strip name)) data) \<noteq> None"
    then have "refused os join files (map (\<lambda>(name, data). (strip name, data)) [(name, data)])"
      by (auto split: option.splits prod.splits)
    from split_chunks_refused [OF fr pat ok this] m
    show "\<exists>e. snd (split Utf8 os join sentinel [d]
                       (fst (merge Utf8 read sentinel [d] [(name, input_filename)])) files)
                 = Inl e"
      by simp
  }
qed

theorem delimiter_in_name_witness:
  "58 \<notin> set (ascii ''5'') \<and> 58 \<notin> set (ascii ''2cf2'')
   \<and> rsplit [58] 2 (ascii ''sub:dir/file.txt'' @ [58] @ ascii ''5'' @ [58] @ ascii ''2cf2'')
       = [ascii ''sub:dir/file.txt'', ascii ''5'', ascii ''2cf2'']
   \<and> 58 \<in> set (ascii ''sub:dir/file.txt'')
   \<and> framing_ok (ascii ''--STARTFILE--'') 58
   \<and> encode Utf8 (ascii ''--STARTFILE--'' @ [58]) = Inr ''--STARTFILE--:''
   \<and> (\<lambda>p. if p = (0::nat) then Some ''hello'' else None) 0 = Some ''hello''
   \<and> entry_ok ''--STARTFILE--:'' 58 (ascii ''sub:dir/file.txt'', ''hello'')
   \<and> strip (ascii ''sub:dir/file.txt'') = ascii ''sub:dir/file.txt''
   \<and> mkdir_parent out_dir Map.empty (ascii ''out/'' @ strip (ascii ''sub:dir/file.txt'')) = None
   \<and> write_bytes out_dir Map.empty (ascii ''out/'' @ strip (ascii ''sub:dir/file.txt'')) ''hello''
       = ([ascii ''out/'' @ strip (ascii ''sub:dir/file.txt'') \<mapsto> ''hello''], None)
   \<and> snd (merge Utf8 (\<lambda>p. if p = (0::nat) then Some ''hello'' else None)
            (ascii ''--STARTFILE--'') [58] [(ascii ''sub:dir/file.txt'', 0)]) = None
   \<and> split Utf8 out_dir (\<lambda>name. ascii ''out/'' @ name) (ascii ''--STARTFILE--'') [58]
        (fst (merge Utf8 (\<lambda>p. if p = (0::nat) then Some ''hello'' else None)
            (ascii ''--STARTFILE--'') [58] [(ascii ''sub:dir/file.txt'', 0)]))
        Map.empty
      = ([ascii ''out/'' @ strip (ascii ''sub:dir/file.txt'') \<mapsto> ''hello''],
         Inr [strip (ascii ''sub:dir/file.txt'')
                \<mapsto> ascii ''out/'' @ strip (ascii ''sub:dir/file.txt'')])
   \<and> entry_ok ''--STARTFILE--:'' 58 ([120, 58, 0, 121], ''hello'')
   \<and> snd (write_bytes out_dir Map.empty (ascii ''out/'' @ strip [120, 58, 0, 121]) ''hello'')
       \<noteq> None
   \<and> (\<exists>e. snd (split Utf8 out_dir (\<lambda>name. ascii ''out/'' @ name) (ascii ''--STARTFILE--'') [58]
                  (fst (merge Utf8 (\<lambda>p. if p = (0::nat) then Some ''hello'' else None)
                          (ascii ''--STARTFILE--'') [58] [([120, 58, 0, 121], 0)]))
                  Map.empty) = Inl e)"
proof -
  let ?read = "\<lambda>p. if p = (0::nat) then Some ''hello'' else None"
  let ?join = "\<lambda>name. ascii ''out/'' @ name"
  have a1: "58 \<notin> set (ascii ''5'') \<and> 58 \<notin> set (ascii ''2cf2'')" by (simp add: ascii_def)
  have a2: "58 \<in> set (ascii ''sub:dir/file.txt'')" by (simp add: ascii_def)
  have h1: "framing_ok (ascii ''--STARTFILE--'') 58" by (rule framing_default)
  have h2: "encode Utf8 (ascii ''--STARTFILE--'' @ [58]) = Inr ''--STARTFILE--:''"
    by (rule encode_default_pattern')
  have h3: "?read 0 = Some ''hello''" by simp
  have h4: "entry_ok ''--STARTFILE--:'' 58 (ascii ''sub:dir/file.txt'', ''hello'')"
    by (simp add: entry_ok_def text_eval sublist_Cons_right)
  have s1: "strip (ascii ''sub:dir/file.txt'') = ascii ''sub:dir/file.txt''"
    by (simp add: text_eval)
  have w1: "mkdir_parent out_dir Map.empty (ascii ''out/'' @ strip (ascii ''sub:dir/file.txt'')) = None"
    by (simp add: out_dir_def)
  have w2: "write_bytes out_dir Map.empty (ascii ''out/'' @ strip (ascii ''sub:dir/file.txt''))
              ''hello''
            = ([ascii ''out/'' @ strip (ascii ''sub:dir/file.txt'') \<mapsto> ''hello''], None)"
    by (simp add: out_dir_def s1) (simp add: ascii_def)
  note r = delimiter_in_name [of 58 "ascii ''5''" "ascii ''2cf2''" "ascii ''sub:dir/file.txt''"
      "ascii ''--STARTFILE--''" "''--STARTFILE--:''" ?read 0 "''hello''" out_dir Map.empty ?join]
  from r a1 have c0: "rsplit [58] 2 (ascii ''sub:dir/file.txt'' @ [58] @ ascii ''5'' @ [58] @ ascii ''2cf2'')
       = [ascii ''sub:dir/file.txt'', ascii ''5'', ascii ''2cf2'']"
    by blast
  from r h1 h2 h3 h4
  have c1: "snd (merge Utf8 ?read (ascii ''--STARTFILE--'') [58] [(ascii ''sub:dir/file.txt'', 0)]) = None"
    by blast
  from r h1 h2 h3 h4 w1 w2
  have c2: "split Utf8 out_dir ?join (ascii ''--STARTFILE--'') [58]
        (fst (merge Utf8 ?read (ascii ''--STARTFILE--'') [58] [(ascii ''sub:dir/file.txt'', 0)]))
        Map.empty
      = ([ascii ''out/'' @ strip (ascii ''sub:dir/file.txt'') \<mapsto> ''hello''],
         Inr [strip (ascii ''sub:dir/file.txt'')
                \<mapsto> ascii ''out/'' @ strip (ascii ''sub:dir/file.txt'')])"
    by blast
  have h5: "entry_ok ''--STARTFILE--:'' 58 ([120, 58, 0, 121], ''hello'')"
    by (simp add: entry_ok_def text_eval sublist_Cons_right)
  have w3: "snd (write_bytes out_dir Map.empty (ascii ''out/'' @ strip [120, 58, 0, 121]) ''hello'')
              \<noteq> None"
    by (simp add: out_dir_def text_eval)
  from delimiter_in_name [of 58 "ascii ''5''" "ascii ''2cf2''" "[120, 58, 0, 121]"
      "ascii ''--STARTFILE--''" "''--STARTFILE--:''" ?read 0 "''hello''" out_dir Map.empty ?join]
    h1 h2 h3 h5 w3
  have c3: "\<exists>e. snd (split Utf8 out_dir ?join (ascii ''--STARTFILE--'') [58]
                  (fst (merge Utf8 ?read (ascii ''--STARTFILE--'') [58] [([120, 58, 0, 121], 0)]))
                  Map.empty) = Inl e"
    by blast
  from a1 c0 a2 h1 h2 h3 h4 s1 w1 w2 c1 c2 h5 w3 c3 show ?thesis by blast
qed

text \<open>
  The inputs at which C4 fails: the name \<^verbatim>\<open>"sub:dir "\<close> comes back as \<^verbatim>\<open>"sub:dir"\<close>,
  and the archive written for the name \<^verbatim>\<open>"a--STARTFILE--:b"\<close> is cut inside the name.
\<close>

theorem delimiter_in_name_counterexample:
  "merge Utf8 (\<lambda>p. Some ''hello'') (ascii ''--STARTFILE--'') (ascii '':'')
     [(ascii ''sub:dir '', 0::nat)]
   = (''--STARTFILE--:sub:dir :5:2cf24dba5fb0a30e26e83b2ac5b9e29e1b161e5c1fa7425e73043362938b9824\<newline>hello'',
      None)
   \<and> split Utf8 out_dir (\<lambda>name. ascii ''out/'' @ name) (ascii ''--STARTFILE--'') (ascii '':'')
       ''--STARTFILE--:sub:dir :5:2cf24dba5fb0a30e26e83b2ac5b9e29e1b161e5c1fa7425e73043362938b9824\<newline>hello''
       Map.empty
     = ([ascii ''out/sub:dir'' \<mapsto> ''hello''], Inr [ascii ''sub:dir'' \<mapsto> ascii ''out/sub:dir''])
   \<and> ascii ''sub:dir'' \<noteq> ascii ''sub:dir ''
   \<and> merge Utf8 (\<lambda>p. Some ''hello'') (ascii ''--STARTFILE--'') (ascii '':'')
       [(ascii ''a--STARTFILE--:b'', 0::nat)]
     = (''--STARTFILE--:a--STARTFILE--:b:5:2cf24dba5fb0a30e26e83b2ac5b9e29e1b161e5c1fa7425e73043362938b9824\<newline>hello'',
        None)
   \<and> split Utf8 out_dir (\<lambda>name. ascii ''out/'' @ name) (ascii ''--STARTFILE--'') (ascii '':'')
       ''--STARTFILE--:a--STARTFILE--:b:5:2cf24dba5fb0a30e26e83b2ac5b9e29e1b161e5c1fa7425e73043362938b9824\<newline>hello''
       Map.empty
     = (Map.empty, Inl NotEnoughValues)"
  by (simp add: merge_def split_def parse_part_def sha256_hello text_eval out_dir_def)

text \<open>
  C5. The code does not do what the claim says: line 47 calls \<^verbatim>\<open>header.decode()\<close>
  without the encoding, so the header is always read as UTF-8. With Latin-1 on both sides
  the archive written for the name \<^verbatim>\<open>"\xe9.txt"\<close> is refused.
\<close>

theorem split_decodes_headers_as_utf8:
  "merge Latin1 (\<lambda>p. Some ''hello'') (ascii ''--STARTFILE--'') (ascii '':'')
     [(0xE9 # ascii ''.txt'', 0::nat)]
   = (''--STARTFILE--:'' @ CHR 0xE9
        # ''.txt:5:2cf24dba5fb0a30e26e83b2ac5b9e29e1b161e5c1fa7425e73043362938b9824\<newline>hello'',
      None)
   \<and> split Latin1 out_dir (\<lambda>name. ascii ''out/'' @ name) (ascii ''--STARTFILE--'') (ascii '':'')
       (''--STARTFILE--:'' @ CHR 0xE9
          # ''.txt:5:2cf24dba5fb0a30e26e83b2ac5b9e29e1b161e5c1fa7425e73043362938b9824\<newline>hello'')
       Map.empty
     = (Map.empty,
        Inl (InvalidHeader
          (CHR 0xE9 # ''.txt:5:2cf24dba5fb0a30e26e83b2ac5b9e29e1b161e5c1fa7425e73043362938b9824'')))"
  by (simp add: merge_def split_def parse_part_def sha256_hello text_eval out_dir_def)

text \<open>
  C6. As stated the claim fails: a size field that is a negative integer is accepted.
  What holds: when the parts before a part are accepted and written, \<open>split\<close> stops with an error,
  the output directory being what the earlier entries wrote, if the part has no newline;
  if its header is not UTF-8, or does not split from the right into three fields (the
  error carries the header bytes); or if \<^verbatim>\<open>int\<close> refuses the size field.
\<close>

theorem parse_errors_are_fatal:
  assumes "encode encoding (sentinel @ delimiter) = Inr pat" "pat \<noteq> []"
    and "split_all pat content = lead # before @ part # after"
    and "map (parse_part delimiter) before = map Inr entries"
    and "written os join files entries"
  shows "(split_once [CHR 0x0A] part = None \<longrightarrow>
            split encoding os join sentinel delimiter content files
              = (write_all join files entries, Inl NotEnoughValues))
         \<and> (\<forall>header body.
               split_once [CHR 0x0A] part = Some (header, body)
               \<and> (delimiter = [] \<or> decode_utf8 header = None
                  \<or> (\<exists>decoded. decode_utf8 header = Some decoded
                              \<and> length (rsplit delimiter 2 decoded) \<noteq> 3)) \<longrightarrow>
               split encoding os join sentinel delimiter content files
                 = (write_all join files entries, Inl (InvalidHeader header)))
         \<and> (\<forall>header body decoded filename size_str checksum.
               split_once [CHR 0x0A] part = Some (header, body) \<and> delimiter \<noteq> []
               \<and> decode_utf8 header = Some decoded
               \<and> rsplit delimiter 2 decoded = [filename, size_str, checksum]
               \<and> py_int size_str = None \<longrightarrow>
               split encoding os join sentinel delimiter content files
                 = (write_all join files entries, Inl (InvalidLiteral size_str)))"
proof (intro conjI allI impI)
  assume "split_once [CHR 0x0A] part = None"
  then have "parse_part delimiter part = Inl NotEnoughValues" by (simp add: parse_part_def)
  with assms show "split encoding os join sentinel delimiter content files
              = (write_all join files entries, Inl NotEnoughValues)"
    by (rule split_fails_at)
next
  fix header body
  assume "split_once [CHR 0x0A] part = Some (header, body)
               \<and> (delimiter = [] \<or> decode_utf8 header = None
                  \<or> (\<exists>decoded. decode_utf8 header = Some decoded
                              \<and> length (rsplit delimiter 2 decoded) \<noteq> 3))"
  then have "parse_part delimiter part = Inl (InvalidHeader header)"
    using parse_part_invalid_header by blast
  with assms show "split encoding os join sentinel delimiter content files
                 = (write_all join files entries, Inl (InvalidHeader header))"
    by (rule split_fails_at)
next
  fix header body decoded filename size_str checksum
  assume "split_once [CHR 0x0A] part = Some (header, body) \<and> delimiter \<noteq> []
               \<and> decode_utf8 header = Some decoded
               \<and> rsplit delimiter 2 decoded = [filename, size_str, checksum]
               \<and> py_int size_str = None"
  then have "parse_part delimiter part = Inl (InvalidLiteral size_str)"
    using parse_part_invalid_literal by blast
  with assms show "split encoding os join sentinel delimiter content files
                 = (write_all join files entries, Inl (InvalidLiteral size_str))"
    by (rule split_fails_at)
qed

theorem parse_errors_are_fatal_witness:
  "split_all ''--STARTFILE--:'' (''--STARTFILE--:'' @ ''b.bin:3'') = [] # [] @ ''b.bin:3'' # []
   \<and> split_once [CHR 0x0A] ''b.bin:3'' = None
   \<and> split Utf8 out_dir (\<lambda>name. ascii ''out/'' @ name) (ascii ''--STARTFILE--'') (ascii '':'')
         (''--STARTFILE--:'' @ ''b.bin:3'') Map.empty
       = (write_all (\<lambda>name. ascii ''out/'' @ name) Map.empty [], Inl NotEnoughValues)
   \<and> split_all ''--STARTFILE--:'' (''--STARTFILE--:'' @ ''b.bin:3\<newline>abc'')
       = [] # [] @ ''b.bin:3\<newline>abc'' # []
   \<and> split_once [CHR 0x0A] ''b.bin:3\<newline>abc'' = Some (''b.bin:3'', ''abc'')
   \<and> decode_utf8 ''b.bin:3'' = Some (ascii ''b.bin:3'')
   \<and> length (rsplit (ascii '':'') 2 (ascii ''b.bin:3'')) \<noteq> 3
   \<and> split Utf8 out_dir (\<lambda>name. ascii ''out/'' @ name) (ascii ''--STARTFILE--'') (ascii '':'')
         (''--STARTFILE--:'' @ ''b.bin:3\<newline>abc'') Map.empty
       = (write_all (\<lambda>name. ascii ''out/'' @ name) Map.empty [], Inl (InvalidHeader ''b.bin:3''))
   \<and> split_all ''--STARTFILE--:'' (''--STARTFILE--:'' @ ''b.bin:x3:00\<newline>abc'')
       = [] # [] @ ''b.bin:x3:00\<newline>abc'' # []
   \<and> split_once [CHR 0x0A] ''b.bin:x3:00\<newline>abc'' = Some (''b.bin:x3:00'', ''abc'')
   \<and> decode_utf8 ''b.bin:x3:00'' = Some (ascii ''b.bin:x3:00'')
   \<and> rsplit (ascii '':'') 2 (ascii ''b.bin:x3:00'') = [ascii ''b.bin'', ascii ''x3'', ascii ''00'']
   \<and> py_int (ascii ''x3'') = None
   \<and> split Utf8 out_dir (\<lambda>name. ascii ''out/'' @ name) (ascii ''--STARTFILE--'') (ascii '':'')
         (''--STARTFILE--:'' @ ''b.bin:x3:00\<newline>abc'') Map.empty
       = (write_all (\<lambda>name. ascii ''out/'' @ name) Map.empty [], Inl (InvalidLiteral (ascii ''x3'')))"
proof -
  have h1: "encode Utf8 (ascii ''--STARTFILE--'' @ ascii '':'') = Inr ''--STARTFILE--:''"
    by (rule encode_default_pattern)
  have h2: "''--STARTFILE--:'' \<noteq> []" by simp
  have h4: "map (parse_part (ascii '':'')) [] = map Inr []" by simp
  have hw: "written out_dir (\<lambda>name. ascii ''out/'' @ name) Map.empty []" by simp
  have d: "ascii '':'' \<noteq> []" by (simp add: ascii_def)
  have a3: "split_all ''--STARTFILE--:'' (''--STARTFILE--:'' @ ''b.bin:3'') = [] # [] @ ''b.bin:3'' # []"
    by (simp add: split_all.simps)
  have a5: "split_once [CHR 0x0A] ''b.bin:3'' = None" by simp
  from parse_errors_are_fatal [OF h1 h2 a3 h4 hw] a5
  have a: "split Utf8 out_dir (\<lambda>name. ascii ''out/'' @ name) (ascii ''--STARTFILE--'') (ascii '':'')
         (''--STARTFILE--:'' @ ''b.bin:3'') Map.empty
       = (write_all (\<lambda>name. ascii ''out/'' @ name) Map.empty [], Inl NotEnoughValues)"
    by blast
  have b3: "split_all ''--STARTFILE--:'' (''--STARTFILE--:'' @ ''b.bin:3\<newline>abc'')
       = [] # [] @ ''b.bin:3\<newline>abc'' # []"
    by (simp add: split_all.simps)
  have b5: "split_once [CHR 0x0A] ''b.bin:3\<newline>abc'' = Some (''b.bin:3'', ''abc'')" by simp
  have b6: "decode_utf8 ''b.bin:3'' = Some (ascii ''b.bin:3'')" by (simp add: ascii_def)
  have b7: "length (rsplit (ascii '':'') 2 (ascii ''b.bin:3'')) \<noteq> 3" by (simp add: text_eval)
  from parse_errors_are_fatal [OF h1 h2 b3 h4 hw] b5 b6 b7
  have b: "split Utf8 out_dir (\<lambda>name. ascii ''out/'' @ name) (ascii ''--STARTFILE--'') (ascii '':'')
         (''--STARTFILE--:'' @ ''b.bin:3\<newline>abc'') Map.empty
       = (write_all (\<lambda>name. ascii ''out/'' @ name) Map.empty [], Inl (InvalidHeader ''b.bin:3''))"
    by blast
  have c3: "split_all ''--STARTFILE--:'' (''--STARTFILE--:'' @ ''b.bin:x3:00\<newline>abc'')
       = [] # [] @ ''b.bin:x3:00\<newline>abc'' # []"
    by (simp add: split_all.simps)
  have c5: "split_once [CHR 0x0A] ''b.bin:x3:00\<newline>abc'' = Some (''b.bin:x3:00'', ''abc'')"
    by simp
  have c6: "decode_utf8 ''b.bin:x3:00'' = Some (ascii ''b.bin:x3:00'')" by (simp add: ascii_def)
  have c7: "rsplit (ascii '':'') 2 (ascii ''b.bin:x3:00'') = [ascii ''b.bin'', ascii ''x3'', ascii ''00'']"
    by (simp add: text_eval)
  have c8: "py_int (ascii ''x3'') = None" by (simp add: text_eval)
  from parse_errors_are_fatal [OF h1 h2 c3 h4 hw] d c5 c6 c7 c8
  have c: "split Utf8 out_dir (\<lambda>name. ascii ''out/'' @ name) (ascii ''--STARTFILE--'') (ascii '':'')
         (''--STARTFILE--:'' @ ''b.bin:x3:00\<newline>abc'') Map.empty
       = (write_all (\<lambda>name. ascii ''out/'' @ name) Map.empty [], Inl (InvalidLiteral (ascii ''x3'')))"
    by blast
  from a3 a5 a b3 b5 b6 b7 b c3 c5 c6 c7 c8 c show ?thesis by blast
qed

text \<open>
  The input at which C6 fails: the size field \<^verbatim>\<open>-1\<close> is read as the integer -1 and
  the payload is the body without its last byte.
\<close>

theorem negative_size_counterexample:
  "py_int (ascii ''-1'') = Some (- 1)
   \<and> split Utf8 out_dir (\<lambda>name. ascii ''out/'' @ name) (ascii ''--STARTFILE--'') (ascii '':'')
       ''--STARTFILE--:a.txt:-1:2cf24dba5fb0a30e26e83b2ac5b9e29e1b161e5c1fa7425e73043362938b9824\<newline>hello!''
       Map.empty
     = ([ascii ''out/a.txt'' \<mapsto> ''hello''], Inr [ascii ''a.txt'' \<mapsto> ascii ''out/a.txt''])"
  by (simp add: split_def parse_part_def sha256_hello text_eval out_dir_def)

text \<open>
  C7. As stated the claim fails: an existing input whose header line cannot be encoded
  gets no record, and neither does any input after it. What holds: the existing entries
  are the inputs whose source is a regular file, in iteration order, each with its
  contents. \<open>merge\<close> raises nothing exactly when the header line of every existing entry
  can be encoded, whatever inputs are missing, and the archive is then the records of the
  existing entries, one for each and none of them empty, in that order, and nothing
  else. A missing input can be removed without changing the result, and when no input
  exists the archive is empty and no error is raised.
\<close>

theorem merge_skips_missing_inputs:
  "existing read inputs
     = map (\<lambda>(dst_name, input_filename). (dst_name, the (read input_filename)))
         (filter (\<lambda>(dst_name, input_filename). read input_filename \<noteq> None) inputs)
   \<and> (snd (merge encoding read sentinel delimiter inputs) = None
        \<longleftrightarrow> list_all (encodable encoding sentinel delimiter) (existing read inputs))
   \<and> (list_all (encodable encoding sentinel delimiter) (existing read inputs) \<longrightarrow>
        merge encoding read sentinel delimiter inputs
          = (concat (map (record_of encoding sentinel delimiter) (existing read inputs)), None)
        \<and> list_all (\<lambda>e. record_of encoding sentinel delimiter e \<noteq> []) (existing read inputs)
        \<and> length (map (record_of encoding sentinel delimiter) (existing read inputs))
            = length (filter (\<lambda>(dst_name, input_filename). read input_filename \<noteq> None) inputs))
   \<and> (read input_filename = None \<longrightarrow>
        merge encoding read sentinel delimiter (xs @ (dst_name, input_filename) # ys)
          = merge encoding read sentinel delimiter (xs @ ys))
   \<and> ((\<forall>(name, p) \<in> set inputs. read p = None) \<longrightarrow>
        merge encoding read sentinel delimiter inputs = ([], None))"
proof (intro conjI impI)
  show "existing read inputs
     = map (\<lambda>(dst_name, input_filename). (dst_name, the (read input_filename)))
         (filter (\<lambda>(dst_name, input_filename). read input_filename \<noteq> None) inputs)"
    by (rule existing_filter)
next
  show "snd (merge encoding read sentinel delimiter inputs) = None
        \<longleftrightarrow> list_all (encodable encoding sentinel delimiter) (existing read inputs)"
    by (simp add: merge_records)
next
  assume all: "list_all (encodable encoding sentinel delimiter) (existing read inputs)"
  then show "merge encoding read sentinel delimiter inputs
          = (concat (map (record_of encoding sentinel delimiter) (existing read inputs)), None)"
    by (simp add: merge_records takeWhile_all)
  from all show "list_all (\<lambda>e. record_of encoding sentinel delimiter e \<noteq> []) (existing read inputs)"
    by (simp add: list_all_iff record_nonempty)
  show "length (map (record_of encoding sentinel delimiter) (existing read inputs))
            = length (filter (\<lambda>(dst_name, input_filename). read input_filename \<noteq> None) inputs)"
    by (simp add: existing_filter)
next
  assume "read input_filename = None"
  then have "existing read (xs @ (dst_name, input_filename) # ys) = existing read (xs @ ys)"
    by (simp add: existing_append)
  then have "merge encoding Some sentinel delimiter
               (existing read (xs @ (dst_name, input_filename) # ys))
             = merge encoding Some sentinel delimiter (existing read (xs @ ys))"
    by (rule arg_cong)
  then show "merge encoding read sentinel delimiter (xs @ (dst_name, input_filename) # ys)
          = merge encoding read sentinel delimiter (xs @ ys)"
    by (simp only: merge_existing [symmetric])
next
  assume "\<forall>(name, p) \<in> set inputs. read p = None"
  then have "existing read inputs = []"
    by (induction inputs) auto
  then have "merge encoding Some sentinel delimiter (existing read inputs) = ([], None)"
    by (simp add: merge_def)
  then show "merge encoding read sentinel delimiter inputs = ([], None)"
    by (simp only: merge_existing [symmetric])
qed

theorem merge_skips_missing_inputs_witness:
  "existing (\<lambda>p. if p = (0::nat) then Some ''hello''
                  else if p = 1 then Some [CHR 0x00, CHR 0x01, CHR 0x02] else None)
       [(ascii ''a.txt'', 0), (ascii ''gone'', 7), (ascii ''b.bin'', 1)]
     = [(ascii ''a.txt'', ''hello''), (ascii ''b.bin'', [CHR 0x00, CHR 0x01, CHR 0x02])]
   \<and> list_all (encodable Utf8 (ascii ''--STARTFILE--'') (ascii '':''))
        [(ascii ''a.txt'', ''hello''), (ascii ''b.bin'', [CHR 0x00, CHR 0x01, CHR 0x02])]
   \<and> map (record_of Utf8 (ascii ''--STARTFILE--'') (ascii '':''))
        [(ascii ''a.txt'', ''hello''), (ascii ''b.bin'', [CHR 0x00, CHR 0x01, CHR 0x02])]
     = [''--STARTFILE--:a.txt:5:2cf24dba5fb0a30e26e83b2ac5b9e29e1b161e5c1fa7425e73043362938b9824\<newline>hello'',
        ''--STARTFILE--:b.bin:3:ae4b3280e56e2faf83f414a6e3dabe9d5fbe18976544c05fed121accb85b53fc\<newline>''
          @ [CHR 0x00, CHR 0x01, CHR 0x02]]
   \<and> merge Utf8 (\<lambda>p. if p = (0::nat) then Some ''hello''
                     else if p = 1 then Some [CHR 0x00, CHR 0x01, CHR 0x02] else None)
        (ascii ''--STARTFILE--'') (ascii '':'')
        [(ascii ''a.txt'', 0), (ascii ''gone'', 7), (ascii ''b.bin'', 1)]
     = (concat
          [''--STARTFILE--:a.txt:5:2cf24dba5fb0a30e26e83b2ac5b9e29e1b161e5c1fa7425e73043362938b9824\<newline>hello'',
           ''--STARTFILE--:b.bin:3:ae4b3280e56e2faf83f414a6e3dabe9d5fbe18976544c05fed121accb85b53fc\<newline>''
             @ [CHR 0x00, CHR 0x01, CHR 0x02]],
        None)
   \<and> (\<lambda>p. if p = (0::nat) then Some ''hello''
            else if p = 1 then Some [CHR 0x00, CHR 0x01, CHR 0x02] else None) 7 = None
   \<and> merge Utf8 (\<lambda>p. if p = (0::nat) then Some ''hello''
                     else if p = 1 then Some [CHR 0x00, CHR 0x01, CHR 0x02] else None)
        (ascii ''--STARTFILE--'') (ascii '':'')
        ([(ascii ''a.txt'', 0)] @ (ascii ''gone'', 7) # [(ascii ''b.bin'', 1)])
     = merge Utf8 (\<lambda>p. if p = (0::nat) then Some ''hello''
                       else if p = 1 then Some [CHR 0x00, CHR 0x01, CHR 0x02] else None)
        (ascii ''--STARTFILE--'') (ascii '':'')
        ([(ascii ''a.txt'', 0)] @ [(ascii ''b.bin'', 1)])
   \<and> merge Utf8 (\<lambda>p. if p = (0::nat) then Some ''hello''
                     else if p = 1 then Some [CHR 0x00, CHR 0x01, CHR 0x02] else None)
        (ascii ''--STARTFILE--'') (ascii '':'') [(ascii ''gone'', 7)] = ([], None)"
proof -
  let ?read = "\<lambda>p. if p = (0::nat) then Some ''hello''
                    else if p = 1 then Some [CHR 0x00, CHR 0x01, CHR 0x02] else None"
  let ?inputs = "[(ascii ''a.txt'', 0::nat), (ascii ''gone'', 7), (ascii ''b.bin'', 1)]"
  let ?es = "[(ascii ''a.txt'', ''hello''), (ascii ''b.bin'', [CHR 0x00, CHR 0x01, CHR 0x02])]"
  have ex: "existing ?read ?inputs = ?es" by simp
  have l1: "encode Utf8 (header_line (ascii ''--STARTFILE--'') (ascii '':'') (ascii ''a.txt'') ''hello'')
              = Inr ''--STARTFILE--:a.txt:5:2cf24dba5fb0a30e26e83b2ac5b9e29e1b161e5c1fa7425e73043362938b9824\<newline>''"
    by (simp add: header_line_def sha256_hello text_eval)
  have l2: "encode Utf8 (header_line (ascii ''--STARTFILE--'') (ascii '':'') (ascii ''b.bin'')
                           [CHR 0x00, CHR 0x01, CHR 0x02])
              = Inr ''--STARTFILE--:b.bin:3:ae4b3280e56e2faf83f414a6e3dabe9d5fbe18976544c05fed121accb85b53fc\<newline>''"
    by (simp add: header_line_def sha256_bin text_eval)
  have all: "list_all (encodable Utf8 (ascii ''--STARTFILE--'') (ascii '':'')) ?es"
    by (simp add: encodable_def l1 l2)
  have recs: "map (record_of Utf8 (ascii ''--STARTFILE--'') (ascii '':'')) ?es
     = [''--STARTFILE--:a.txt:5:2cf24dba5fb0a30e26e83b2ac5b9e29e1b161e5c1fa7425e73043362938b9824\<newline>hello'',
        ''--STARTFILE--:b.bin:3:ae4b3280e56e2faf83f414a6e3dabe9d5fbe18976544c05fed121accb85b53fc\<newline>''
          @ [CHR 0x00, CHR 0x01, CHR 0x02]]"
    by (simp add: record_of_def bytes_of_def l1 l2)
  have h1: "?read 7 = None" by simp
  have h2: "\<forall>(name, p) \<in> set [(ascii ''gone'', 7::nat)]. ?read p = None" by simp
  have all': "list_all (encodable Utf8 (ascii ''--STARTFILE--'') (ascii '':''))
                (existing ?read ?inputs)"
    unfolding ex by (rule all)
  note r = merge_skips_missing_inputs [of ?read _ Utf8 "ascii ''--STARTFILE--''" "ascii '':''"
      7 _ "ascii ''gone''"]
  from r [of ?inputs "[(ascii ''a.txt'', 0)]" "[(ascii ''b.bin'', 1)]"] all'
  have "merge Utf8 ?read (ascii ''--STARTFILE--'') (ascii '':'') ?inputs
          = (concat (map (record_of Utf8 (ascii ''--STARTFILE--'') (ascii '':''))
                       (existing ?read ?inputs)), None)"
    by blast
  then have c1: "merge Utf8 ?read (ascii ''--STARTFILE--'') (ascii '':'') ?inputs
     = (concat
          [''--STARTFILE--:a.txt:5:2cf24dba5fb0a30e26e83b2ac5b9e29e1b161e5c1fa7425e73043362938b9824\<newline>hello'',
           ''--STARTFILE--:b.bin:3:ae4b3280e56e2faf83f414a6e3dabe9d5fbe18976544c05fed121accb85b53fc\<newline>''
             @ [CHR 0x00, CHR 0x01, CHR 0x02]],
        None)"
    by (simp only: ex recs)
  from r [of ?inputs "[(ascii ''a.txt'', 0)]" "[(ascii ''b.bin'', 1)]"] h1
  have c2: "merge Utf8 ?read (ascii ''--STARTFILE--'') (ascii '':'')
        ([(ascii ''a.txt'', 0)] @ (ascii ''gone'', 7) # [(ascii ''b.bin'', 1)])
     = merge Utf8 ?read (ascii ''--STARTFILE--'') (ascii '':'')
        ([(ascii ''a.txt'', 0)] @ [(ascii ''b.bin'', 1)])"
    by blast
  from r [of "[(ascii ''gone'', 7)]" "[]" "[]"] h2
  have c3: "merge Utf8 ?read (ascii ''--STARTFILE--'') (ascii '':'') [(ascii ''gone'', 7)] = ([], None)"
    by blast
  from ex all recs c1 h1 c2 c3 show ?thesis by blast
qed

text \<open>
  The inputs at which C7 fails: with the ASCII codec, three existing files and one that
  is missing, the name of the second existing file with the letter U+00E9. The archive
  holds one record for three existing inputs.
\<close>

theorem merge_skips_missing_inputs_counterexample:
  "existing (\<lambda>p. if p = (7::nat) then None else Some ''hello'')
       [(ascii ''a.txt'', 0), (ascii ''gone'', 7), (0xE9 # ascii ''.txt'', 1), (ascii ''b.txt'', 2)]
     = [(ascii ''a.txt'', ''hello''), (0xE9 # ascii ''.txt'', ''hello''), (ascii ''b.txt'', ''hello'')]
   \<and> merge Ascii (\<lambda>p. if p = (7::nat) then None else Some ''hello'')
       (ascii ''--STARTFILE--'') (ascii '':'')
       [(ascii ''a.txt'', 0), (ascii ''gone'', 7), (0xE9 # ascii ''.txt'', 1), (ascii ''b.txt'', 2)]
     = (''--STARTFILE--:a.txt:5:2cf24dba5fb0a30e26e83b2ac5b9e29e1b161e5c1fa7425e73043362938b9824\<newline>hello'',
        Some UnicodeEncodeError)"
  by (simp add: merge_def sha256_hello text_eval)

text \<open>
  C8. When \<open>split\<close> refuses a part (no newline, an invalid header or size, a checksum
  mismatch), the parts before it having been accepted and written, the output directory
  is the one the earlier parts left: every file written for them is still there, the
  last of them with its payload, and nothing is undone.
\<close>

theorem split_keeps_earlier_files:
  assumes "encode encoding (sentinel @ delimiter) = Inr pat" "pat \<noteq> []"
    and "split_all pat content = lead # before @ part # after"
    and "map (parse_part delimiter) before = map Inr entries"
    and "written os join files entries"
    and "parse_part delimiter part = Inl e"
  shows "split encoding os join sentinel delimiter content files
           = (write_all join files entries, Inl e)
         \<and> (\<forall>name data. (name, data) \<in> set entries \<longrightarrow>
                join name \<in> dom (write_all join files entries))
         \<and> (entries \<noteq> [] \<longrightarrow>
              write_all join files entries (join (fst (last entries))) = Some (snd (last entries)))"
proof (intro conjI allI impI)
  from assms(6)
  have "split_loop os join delimiter (write_all join files entries)
          (bind_all join Map.empty entries) (part # after)
        = (write_all join files entries, Inl e)"
    by (rule split_loop_stops)
  with split_loop_append [OF assms(4,5), of Map.empty "part # after"]
    split_parts [OF assms(1-3), of os join files]
  show "split encoding os join sentinel delimiter content files
          = (write_all join files entries, Inl e)" by simp
next
  fix name data assume "(name, data) \<in> set entries"
  then have "(join name, data) \<in> set (rev (map (\<lambda>(n, c). (join n, c)) entries))"
    by force
  then have "join name \<in> dom (map_of (rev (map (\<lambda>(n, c). (join n, c)) entries)))"
    by (metis domI weak_map_of_SomeI domIff option.distinct(1) map_of_eq_None_iff image_eqI fst_conv)
  then show "join name \<in> dom (write_all join files entries)"
    by (simp add: write_all_map_of)
next
  assume "entries \<noteq> []"
  then obtain es n c where "entries = es @ [(n, c)]"
    by (cases entries rule: rev_cases) auto
  then show "write_all join files entries (join (fst (last entries))) = Some (snd (last entries))"
    by (simp add: write_all_map_of)
qed

theorem split_keeps_earlier_files_witness:
  "encode Utf8 (ascii ''--STARTFILE--'' @ ascii '':'') = Inr ''--STARTFILE--:''
   \<and> ''--STARTFILE--:'' \<noteq> []
   \<and> split_all ''--STARTFILE--:''
        (''--STARTFILE--:a.txt:5:2cf24dba5fb0a30e26e83b2ac5b9e29e1b161e5c1fa7425e73043362938b9824\<newline>hello''
           @ ''--STARTFILE--:'' @ ''b.bin:3'')
       = [] # [''a.txt:5:2cf24dba5fb0a30e26e83b2ac5b9e29e1b161e5c1fa7425e73043362938b9824\<newline>hello'']
            @ ''b.bin:3'' # []
   \<and> map (parse_part (ascii '':''))
        [''a.txt:5:2cf24dba5fb0a30e26e83b2ac5b9e29e1b161e5c1fa7425e73043362938b9824\<newline>hello'']
       = map Inr [(ascii ''a.txt'', ''hello'')]
   \<and> written out_dir (\<lambda>name. ascii ''out/'' @ name) Map.empty [(ascii ''a.txt'', ''hello'')]
   \<and> parse_part (ascii '':'') ''b.bin:3'' = Inl NotEnoughValues
   \<and> split Utf8 out_dir (\<lambda>name. ascii ''out/'' @ name) (ascii ''--STARTFILE--'') (ascii '':'')
        (''--STARTFILE--:a.txt:5:2cf24dba5fb0a30e26e83b2ac5b9e29e1b161e5c1fa7425e73043362938b9824\<newline>hello''
           @ ''--STARTFILE--:'' @ ''b.bin:3'')
        Map.empty
       = (write_all (\<lambda>name. ascii ''out/'' @ name) Map.empty [(ascii ''a.txt'', ''hello'')],
          Inl NotEnoughValues)
   \<and> (ascii ''a.txt'', ''hello'') \<in> set [(ascii ''a.txt'', ''hello'')]
   \<and> ascii ''out/'' @ ascii ''a.txt''
        \<in> dom (write_all (\<lambda>name. ascii ''out/'' @ name) Map.empty [(ascii ''a.txt'', ''hello'')])
   \<and> write_all (\<lambda>name. ascii ''out/'' @ name) Map.empty [(ascii ''a.txt'', ''hello'')]
        (ascii ''out/'' @ ascii ''a.txt'') = Some ''hello''"
proof -
  have h1: "encode Utf8 (ascii ''--STARTFILE--'' @ ascii '':'') = Inr ''--STARTFILE--:''"
    by (rule encode_default_pattern)
  have h2: "''--STARTFILE--:'' \<noteq> []" by simp
  have "split_all ''--STARTFILE--:'' ''b.bin:3'' = [''b.bin:3'']"
    by (rule split_all_none) (simp add: sublist_Cons_right)
  then have h3: "split_all ''--STARTFILE--:''
        (''--STARTFILE--:a.txt:5:2cf24dba5fb0a30e26e83b2ac5b9e29e1b161e5c1fa7425e73043362938b9824\<newline>hello''
           @ ''--STARTFILE--:'' @ ''b.bin:3'')
       = [] # [''a.txt:5:2cf24dba5fb0a30e26e83b2ac5b9e29e1b161e5c1fa7425e73043362938b9824\<newline>hello'']
            @ ''b.bin:3'' # []"
    by (simp only: split_all_two_parts) simp
  have h4: "map (parse_part (ascii '':''))
        [''a.txt:5:2cf24dba5fb0a30e26e83b2ac5b9e29e1b161e5c1fa7425e73043362938b9824\<newline>hello'']
       = map Inr [(ascii ''a.txt'', ''hello'')]"
    by (simp add: parse_part_hello)
  have hw: "written out_dir (\<lambda>name. ascii ''out/'' @ name) Map.empty [(ascii ''a.txt'', ''hello'')]"
    by (simp add: out_dir_def ascii_def)
  have h5: "parse_part (ascii '':'') ''b.bin:3'' = Inl NotEnoughValues"
    by (simp add: parse_part_def)
  have h6: "(ascii ''a.txt'', ''hello'') \<in> set [(ascii ''a.txt'', ''hello'')]" by simp
  have h7: "[(ascii ''a.txt'', ''hello'')] \<noteq> []" by simp
  note r = split_keeps_earlier_files [OF h1 h2 h3 h4 hw h5]
  from r have c1: "split Utf8 out_dir (\<lambda>name. ascii ''out/'' @ name) (ascii ''--STARTFILE--'') (ascii '':'')
        (''--STARTFILE--:a.txt:5:2cf24dba5fb0a30e26e83b2ac5b9e29e1b161e5c1fa7425e73043362938b9824\<newline>hello''
           @ ''--STARTFILE--:'' @ ''b.bin:3'')
        Map.empty
       = (write_all (\<lambda>name. ascii ''out/'' @ name) Map.empty [(ascii ''a.txt'', ''hello'')],
          Inl NotEnoughValues)" by (rule conjunct1)
  from r h6 have c2: "ascii ''out/'' @ ascii ''a.txt''
        \<in> dom (write_all (\<lambda>name. ascii ''out/'' @ name) Map.empty [(ascii ''a.txt'', ''hello'')])"
    by blast
  from r h7 have c3: "write_all (\<lambda>name. ascii ''out/'' @ name) Map.empty [(ascii ''a.txt'', ''hello'')]
        (ascii ''out/'' @ ascii ''a.txt'') = Some ''hello''"
    by simp
  from h1 h2 h3 h4 hw h5 c1 h6 c2 c3 show ?thesis by blast
qed

text \<open>
  C9. An archive in which the encoded sentinel followed by the delimiter does not occur
  is split without error into nothing: no file is written and the returned dictionary is
  empty. Whatever precedes the first occurrence of that pattern is dropped: the result is
  the one for the archive that starts at the first occurrence.
\<close>

theorem split_without_sentinel:
  assumes "encode encoding (sentinel @ delimiter) = Inr pat"
  shows "(\<not> sublist pat content \<longrightarrow>
            split encoding os join sentinel delimiter content files = (files, Inr Map.empty))
         \<and> (pat \<noteq> [] \<and> \<not> sublist pat (junk @ butlast pat) \<longrightarrow>
            split encoding os join sentinel delimiter (junk @ pat @ rest) files
              = split encoding os join sentinel delimiter (pat @ rest) files)"
proof (intro conjI impI)
  assume no: "\<not> sublist pat content"
  then have "pat \<noteq> []" by auto
  with assms no show "split encoding os join sentinel delimiter content files = (files, Inr Map.empty)"
    by (simp add: split_def split_all_none)
next
  assume a: "pat \<noteq> [] \<and> \<not> sublist pat (junk @ butlast pat)"
  then have "split_all pat (junk @ pat @ rest) = junk # split_all pat rest"
    by (simp add: split_all_first)
  moreover have "split_all pat ([] @ pat @ rest) = [] # split_all pat rest"
    using a by (intro split_all_first) (auto simp: not_sublist_butlast)
  ultimately show "split encoding os join sentinel delimiter (junk @ pat @ rest) files
              = split encoding os join sentinel delimiter (pat @ rest) files"
    using assms by (simp add: split_def)
qed

theorem split_without_sentinel_witness:
  "\<not> sublist ''--STARTFILE--:'' []
   \<and> split Utf8 out_dir (\<lambda>name. ascii ''out/'' @ name) (ascii ''--STARTFILE--'') (ascii '':'')
         [] Map.empty = (Map.empty, Inr Map.empty)
   \<and> \<not> sublist ''--STARTFILE--:'' ''no archive here''
   \<and> split Utf8 out_dir (\<lambda>name. ascii ''out/'' @ name) (ascii ''--STARTFILE--'') (ascii '':'')
         ''no archive here'' Map.empty = (Map.empty, Inr Map.empty)
   \<and> ''--STARTFILE--:'' \<noteq> [] \<and> \<not> sublist ''--STARTFILE--:'' (''junk'' @ butlast ''--STARTFILE--:'')
   \<and> split Utf8 out_dir (\<lambda>name. ascii ''out/'' @ name) (ascii ''--STARTFILE--'') (ascii '':'')
         (''junk'' @ ''--STARTFILE--:'' @ ''a:0:x'') Map.empty
       = split Utf8 out_dir (\<lambda>name. ascii ''out/'' @ name) (ascii ''--STARTFILE--'') (ascii '':'')
         (''--STARTFILE--:'' @ ''a:0:x'') Map.empty"
proof -
  have enc: "encode Utf8 (ascii ''--STARTFILE--'' @ ascii '':'') = Inr ''--STARTFILE--:''"
    by (rule encode_default_pattern)
  have none: "\<not> sublist ''--STARTFILE--:'' []" by simp
  have no: "\<not> sublist ''--STARTFILE--:'' ''no archive here''"
    by (simp add: sublist_Cons_right)
  have first: "\<not> sublist ''--STARTFILE--:'' (''junk'' @ butlast ''--STARTFILE--:'')"
    by (simp add: sublist_Cons_right)
  have ne: "''--STARTFILE--:'' \<noteq> []" by simp
  from split_without_sentinel [OF enc, of "[]" out_dir "\<lambda>name. ascii ''out/'' @ name" Map.empty] none
  have c0: "split Utf8 out_dir (\<lambda>name. ascii ''out/'' @ name) (ascii ''--STARTFILE--'') (ascii '':'')
         [] Map.empty = (Map.empty, Inr Map.empty)"
    by blast
  from split_without_sentinel [OF enc, of "''no archive here''" out_dir
      "\<lambda>name. ascii ''out/'' @ name" Map.empty "''junk''" "''a:0:x''"] no first ne
  have c1: "split Utf8 out_dir (\<lambda>name. ascii ''out/'' @ name) (ascii ''--STARTFILE--'') (ascii '':'')
         ''no archive here'' Map.empty = (Map.empty, Inr Map.empty)"
    and c2: "split Utf8 out_dir (\<lambda>name. ascii ''out/'' @ name) (ascii ''--STARTFILE--'') (ascii '':'')
         (''junk'' @ ''--STARTFILE--:'' @ ''a:0:x'') Map.empty
       = split Utf8 out_dir (\<lambda>name. ascii ''out/'' @ name) (ascii ''--STARTFILE--'') (ascii '':'')
         (''--STARTFILE--:'' @ ''a:0:x'') Map.empty"
    by blast+
  from none c0 no c1 ne first c2 show ?thesis by blast
qed

text \<open>
  C10. When every part is accepted and written, \<open>split\<close> writes the entries in archive order and binds
  each name to its path. Of two entries with the same stripped name the later one's
  payload is what the file holds at the end (provided no entry after it is written to
  the same path), and the dictionary maps the name to that path.
\<close>

theorem duplicate_names_last_wins:
  assumes "encode encoding (sentinel @ delimiter) = Inr pat" "pat \<noteq> []"
    and "split_all pat content = lead # parts"
    and "map (parse_part delimiter) parts = map Inr entries"
    and "written os join files entries"
  shows "split encoding os join sentinel delimiter content files
           = (write_all join files entries, Inr (bind_all join Map.empty entries))
         \<and> (\<forall>es1 name c1 es2 c2 es3.
               entries = es1 @ (name, c1) # es2 @ (name, c2) # es3
               \<and> join name \<notin> join ` fst ` set es3 \<longrightarrow>
               write_all join files entries (join name) = Some c2
               \<and> bind_all join Map.empty entries name = Some (join name))"
proof (rule conjI)
  from split_loop_append [OF assms(4,5), of Map.empty "[]"]
    split_parts [OF assms(1-3), of os join files]
  show "split encoding os join sentinel delimiter content files
          = (write_all join files entries, Inr (bind_all join Map.empty entries))"
    by simp
next
  show "\<forall>es1 name c1 es2 c2 es3.
               entries = es1 @ (name, c1) # es2 @ (name, c2) # es3
               \<and> join name \<notin> join ` fst ` set es3 \<longrightarrow>
               write_all join files entries (join name) = Some c2
               \<and> bind_all join Map.empty entries name = Some (join name)"
  proof (intro allI impI)
    fix es1 name c1 es2 c2 es3
    assume a: "entries = es1 @ (name, c1) # es2 @ (name, c2) # es3
               \<and> join name \<notin> join ` fst ` set es3"
    then have ent: "entries = (es1 @ (name, c1) # es2) @ (name, c2) # es3" by simp
    from a have n3: "name \<notin> fst ` set es3" by auto
    from a have j3: "join name \<notin> join ` fst ` set es3" by simp
    have "write_all join files entries (join name)
            = write_all join ((write_all join files (es1 @ (name, c1) # es2))(join name \<mapsto> c2)) es3 (join name)"
      unfolding ent by (simp only: write_all_append write_all_Cons)
    also have "\<dots> = Some c2"
      by (simp only: write_all_other [OF j3]) simp
    finally have w: "write_all join files entries (join name) = Some c2" .
    have "bind_all join Map.empty entries name
            = bind_all join ((bind_all join Map.empty (es1 @ (name, c1) # es2))(name \<mapsto> join name)) es3 name"
      unfolding ent by (simp only: bind_all_append bind_all_Cons)
    also have "\<dots> = Some (join name)"
      by (simp only: bind_all_other [OF n3]) simp
    finally have b: "bind_all join Map.empty entries name = Some (join name)" .
    from w b show "write_all join files entries (join name) = Some c2
        \<and> bind_all join Map.empty entries name = Some (join name)" ..
  qed
qed

theorem duplicate_names_last_wins_witness:
  "encode Utf8 (ascii ''--STARTFILE--'' @ ascii '':'') = Inr ''--STARTFILE--:''
   \<and> ''--STARTFILE--:'' \<noteq> []
   \<and> split_all ''--STARTFILE--:''
        (''--STARTFILE--:a.txt:5:2cf24dba5fb0a30e26e83b2ac5b9e29e1b161e5c1fa7425e73043362938b9824\<newline>hello''
           @ ''--STARTFILE--:''
           @ '' a.txt:3:ae4b3280e56e2faf83f414a6e3dabe9d5fbe18976544c05fed121accb85b53fc\<newline>''
           @ [CHR 0x00, CHR 0x01, CHR 0x02])
       = [] # [''a.txt:5:2cf24dba5fb0a30e26e83b2ac5b9e29e1b161e5c1fa7425e73043362938b9824\<newline>hello'',
               '' a.txt:3:ae4b3280e56e2faf83f414a6e3dabe9d5fbe18976544c05fed121accb85b53fc\<newline>''
                 @ [CHR 0x00, CHR 0x01, CHR 0x02]]
   \<and> map (parse_part (ascii '':''))
        [''a.txt:5:2cf24dba5fb0a30e26e83b2ac5b9e29e1b161e5c1fa7425e73043362938b9824\<newline>hello'',
         '' a.txt:3:ae4b3280e56e2faf83f414a6e3dabe9d5fbe18976544c05fed121accb85b53fc\<newline>''
           @ [CHR 0x00, CHR 0x01, CHR 0x02]]
       = map Inr [(ascii ''a.txt'', ''hello''), (ascii ''a.txt'', [CHR 0x00, CHR 0x01, CHR 0x02])]
   \<and> written out_dir (\<lambda>name. ascii ''out/'' @ name) Map.empty
        [(ascii ''a.txt'', ''hello''), (ascii ''a.txt'', [CHR 0x00, CHR 0x01, CHR 0x02])]
   \<and> split Utf8 out_dir (\<lambda>name. ascii ''out/'' @ name) (ascii ''--STARTFILE--'') (ascii '':'')
        (''--STARTFILE--:a.txt:5:2cf24dba5fb0a30e26e83b2ac5b9e29e1b161e5c1fa7425e73043362938b9824\<newline>hello''
           @ ''--STARTFILE--:''
           @ '' a.txt:3:ae4b3280e56e2faf83f414a6e3dabe9d5fbe18976544c05fed121accb85b53fc\<newline>''
           @ [CHR 0x00, CHR 0x01, CHR 0x02])
        Map.empty
       = (write_all (\<lambda>name. ascii ''out/'' @ name) Map.empty
            [(ascii ''a.txt'', ''hello''), (ascii ''a.txt'', [CHR 0x00, CHR 0x01, CHR 0x02])],
          Inr (bind_all (\<lambda>name. ascii ''out/'' @ name) Map.empty
            [(ascii ''a.txt'', ''hello''), (ascii ''a.txt'', [CHR 0x00, CHR 0x01, CHR 0x02])]))
   \<and> [(ascii ''a.txt'', ''hello''), (ascii ''a.txt'', [CHR 0x00, CHR 0x01, CHR 0x02])]
       = [] @ (ascii ''a.txt'', ''hello'') # [] @ (ascii ''a.txt'', [CHR 0x00, CHR 0x01, CHR 0x02]) # []
   \<and> ascii ''out/'' @ ascii ''a.txt''
       \<notin> (\<lambda>name. ascii ''out/'' @ name) ` fst ` set ([] :: (str \<times> bytes) list)
   \<and> write_all (\<lambda>name. ascii ''out/'' @ name) Map.empty
          [(ascii ''a.txt'', ''hello''), (ascii ''a.txt'', [CHR 0x00, CHR 0x01, CHR 0x02])]
          (ascii ''out/'' @ ascii ''a.txt'') = Some [CHR 0x00, CHR 0x01, CHR 0x02]
   \<and> bind_all (\<lambda>name. ascii ''out/'' @ name) Map.empty
          [(ascii ''a.txt'', ''hello''), (ascii ''a.txt'', [CHR 0x00, CHR 0x01, CHR 0x02])]
          (ascii ''a.txt'') = Some (ascii ''out/'' @ ascii ''a.txt'')"
proof -
  have h1: "encode Utf8 (ascii ''--STARTFILE--'' @ ascii '':'') = Inr ''--STARTFILE--:''"
    by (rule encode_default_pattern)
  have h2: "''--STARTFILE--:'' \<noteq> []" by simp
  have "split_all ''--STARTFILE--:''
          ('' a.txt:3:ae4b3280e56e2faf83f414a6e3dabe9d5fbe18976544c05fed121accb85b53fc\<newline>''
             @ [CHR 0x00, CHR 0x01, CHR 0x02])
        = ['' a.txt:3:ae4b3280e56e2faf83f414a6e3dabe9d5fbe18976544c05fed121accb85b53fc\<newline>''
             @ [CHR 0x00, CHR 0x01, CHR 0x02]]"
    by (rule split_all_none) (simp add: sublist_Cons_right)
  then have h3: "split_all ''--STARTFILE--:''
        (''--STARTFILE--:a.txt:5:2cf24dba5fb0a30e26e83b2ac5b9e29e1b161e5c1fa7425e73043362938b9824\<newline>hello''
           @ ''--STARTFILE--:''
           @ '' a.txt:3:ae4b3280e56e2faf83f414a6e3dabe9d5fbe18976544c05fed121accb85b53fc\<newline>''
           @ [CHR 0x00, CHR 0x01, CHR 0x02])
       = [] # [''a.txt:5:2cf24dba5fb0a30e26e83b2ac5b9e29e1b161e5c1fa7425e73043362938b9824\<newline>hello'',
               '' a.txt:3:ae4b3280e56e2faf83f414a6e3dabe9d5fbe18976544c05fed121accb85b53fc\<newline>''
                 @ [CHR 0x00, CHR 0x01, CHR 0x02]]"
    by (simp only: split_all_two_parts)
  have "parse_part (ascii '':'')
          ('' a.txt:3:ae4b3280e56e2faf83f414a6e3dabe9d5fbe18976544c05fed121accb85b53fc\<newline>''
             @ [CHR 0x00, CHR 0x01, CHR 0x02])
        = Inr (ascii ''a.txt'', [CHR 0x00, CHR 0x01, CHR 0x02])"
    by (simp add: parse_part_def sha256_bin text_eval)
  then have h4: "map (parse_part (ascii '':''))
        [''a.txt:5:2cf24dba5fb0a30e26e83b2ac5b9e29e1b161e5c1fa7425e73043362938b9824\<newline>hello'',
         '' a.txt:3:ae4b3280e56e2faf83f414a6e3dabe9d5fbe18976544c05fed121accb85b53fc\<newline>''
           @ [CHR 0x00, CHR 0x01, CHR 0x02]]
       = map Inr [(ascii ''a.txt'', ''hello''), (ascii ''a.txt'', [CHR 0x00, CHR 0x01, CHR 0x02])]"
    by (simp only: list.map parse_part_hello)
  have hw: "written out_dir (\<lambda>name. ascii ''out/'' @ name) Map.empty
        [(ascii ''a.txt'', ''hello''), (ascii ''a.txt'', [CHR 0x00, CHR 0x01, CHR 0x02])]"
    by (simp add: out_dir_def ascii_def)
  have h5: "[(ascii ''a.txt'', ''hello''), (ascii ''a.txt'', [CHR 0x00, CHR 0x01, CHR 0x02])]
       = [] @ (ascii ''a.txt'', ''hello'') # [] @ (ascii ''a.txt'', [CHR 0x00, CHR 0x01, CHR 0x02]) # []"
    by simp
  have h6: "ascii ''out/'' @ ascii ''a.txt''
       \<notin> (\<lambda>name. ascii ''out/'' @ name) ` fst ` set ([] :: (str \<times> bytes) list)"
    by simp
  note r = duplicate_names_last_wins [OF h1 h2 h3 h4 hw]
  from r have c1: "split Utf8 out_dir (\<lambda>name. ascii ''out/'' @ name) (ascii ''--STARTFILE--'') (ascii '':'')
        (''--STARTFILE--:a.txt:5:2cf24dba5fb0a30e26e83b2ac5b9e29e1b161e5c1fa7425e73043362938b9824\<newline>hello''
           @ ''--STARTFILE--:''
           @ '' a.txt:3:ae4b3280e56e2faf83f414a6e3dabe9d5fbe18976544c05fed121accb85b53fc\<newline>''
           @ [CHR 0x00, CHR 0x01, CHR 0x02])
        Map.empty
       = (write_all (\<lambda>name. ascii ''out/'' @ name) Map.empty
            [(ascii ''a.txt'', ''hello''), (ascii ''a.txt'', [CHR 0x00, CHR 0x01, CHR 0x02])],
          Inr (bind_all (\<lambda>name. ascii ''out/'' @ name) Map.empty
            [(ascii ''a.txt'', ''hello''), (ascii ''a.txt'', [CHR 0x00, CHR 0x01, CHR 0x02])]))"
    by (rule conjunct1)
  from r have "\<forall>es1 name c1 es2 c2 es3.
      [(ascii ''a.txt'', ''hello''), (ascii ''a.txt'', [CHR 0x00, CHR 0x01, CHR 0x02])]
        = es1 @ (name, c1) # es2 @ (name, c2) # es3
      \<and> ascii ''out/'' @ name \<notin> (\<lambda>name. ascii ''out/'' @ name) ` fst ` set es3 \<longrightarrow>
      write_all (\<lambda>name. ascii ''out/'' @ name) Map.empty
          [(ascii ''a.txt'', ''hello''), (ascii ''a.txt'', [CHR 0x00, CHR 0x01, CHR 0x02])]
          (ascii ''out/'' @ name) = Some c2
      \<and> bind_all (\<lambda>name. ascii ''out/'' @ name) Map.empty
          [(ascii ''a.txt'', ''hello''), (ascii ''a.txt'', [CHR 0x00, CHR 0x01, CHR 0x02])]
          name = Some (ascii ''out/'' @ name)"
    by (rule conjunct2)
  from this [rule_format, of "[]" "ascii ''a.txt''" "''hello''" "[]" "[CHR 0x00, CHR 0x01, CHR 0x02]" "[]"]
    h5 h6
  have c2: "write_all (\<lambda>name. ascii ''out/'' @ name) Map.empty
          [(ascii ''a.txt'', ''hello''), (ascii ''a.txt'', [CHR 0x00, CHR 0x01, CHR 0x02])]
          (ascii ''out/'' @ ascii ''a.txt'') = Some [CHR 0x00, CHR 0x01, CHR 0x02]
      \<and> bind_all (\<lambda>name. ascii ''out/'' @ name) Map.empty
          [(ascii ''a.txt'', ''hello''), (ascii ''a.txt'', [CHR 0x00, CHR 0x01, CHR 0x02])]
          (ascii ''a.txt'') = Some (ascii ''out/'' @ ascii ''a.txt'')"
    by blast
  from h1 h2 h3 h4 hw c1 h5 h6 c2 show ?thesis by blast
qed

end
